theory Spec2Isabelle
  imports Main "HOL-Library.Word"
begin

unbundle bit_operations_syntax

section \<open>Machine types\<close>

text \<open>
  \<open>uint32_t\<close> and \<open>int32_t\<close> are 32-bit words (an \<open>int32_t\<close> is read with \<open>sint\<close>),
  \<open>uint8_t\<close> is an 8-bit word. Arithmetic on words wraps, as the C arithmetic on the
  unsigned types does.

  Pointers to the driver's objects are modelled by the objects they point to: every
  function takes the referent and returns the updated referent. The guards
  \<open>if (!p) return ...\<close> at the head of the C functions are therefore not branches of the
  model; everything else is.
\<close>

type_synonym u32 = "32 word"
type_synonym s32 = "32 word"
type_synonym u8 = "8 word"

section \<open>Register file (device_registers.h, device_registers.c)\<close>

definition REG_MOTOR_CTRL :: u32 where "REG_MOTOR_CTRL = 0x00"
definition REG_MOTOR_STATUS :: u32 where "REG_MOTOR_STATUS = 0x04"
definition REG_MOTOR_SPEED :: u32 where "REG_MOTOR_SPEED = 0x08"
definition REG_MOTOR_POSITION :: u32 where "REG_MOTOR_POSITION = 0x0C"
definition REG_SENSOR_CTRL :: u32 where "REG_SENSOR_CTRL = 0x10"
definition REG_SENSOR_DATA :: u32 where "REG_SENSOR_DATA = 0x14"
definition REG_SENSOR_STATUS :: u32 where "REG_SENSOR_STATUS = 0x18"
definition REG_IRQ_STATUS :: u32 where "REG_IRQ_STATUS = 0x1C"
definition REG_IRQ_ENABLE :: u32 where "REG_IRQ_ENABLE = 0x20"

definition MOTOR_CTRL_ENABLE :: u32 where "MOTOR_CTRL_ENABLE = push_bit 0 1"
definition MOTOR_CTRL_DIR_CW :: u32 where "MOTOR_CTRL_DIR_CW = push_bit 1 1"
definition MOTOR_CTRL_BRAKE :: u32 where "MOTOR_CTRL_BRAKE = push_bit 2 1"
definition MOTOR_CTRL_RESET :: u32 where "MOTOR_CTRL_RESET = push_bit 7 1"

definition MOTOR_STATUS_RUNNING :: u32 where "MOTOR_STATUS_RUNNING = push_bit 0 1"
definition MOTOR_STATUS_FAULT :: u32 where "MOTOR_STATUS_FAULT = push_bit 1 1"
definition MOTOR_STATUS_STALL :: u32 where "MOTOR_STATUS_STALL = push_bit 2 1"
definition MOTOR_STATUS_OVERHEAT :: u32 where "MOTOR_STATUS_OVERHEAT = push_bit 3 1"

definition SENSOR_CTRL_ENABLE :: u32 where "SENSOR_CTRL_ENABLE = push_bit 0 1"
definition SENSOR_CTRL_CONTINUOUS :: u32 where "SENSOR_CTRL_CONTINUOUS = push_bit 1 1"
definition SENSOR_CTRL_TRIGGER :: u32 where "SENSOR_CTRL_TRIGGER = push_bit 2 1"

definition SENSOR_STATUS_READY :: u32 where "SENSOR_STATUS_READY = push_bit 0 1"
definition SENSOR_STATUS_OVERFLOW :: u32 where "SENSOR_STATUS_OVERFLOW = push_bit 1 1"
definition SENSOR_STATUS_ERROR :: u32 where "SENSOR_STATUS_ERROR = push_bit 2 1"

definition REGISTER_FILE_SIZE :: u32 where "REGISTER_FILE_SIZE = 0x24"

text \<open>
  \<open>register_file_t\<close> is a struct whose only field is the array
  \<open>uint32_t regs[REGISTER_FILE_SIZE / 4]\<close>: a list of nine words. \<open>rf_wf\<close> is the
  array's fixed length, which the C type guarantees.
\<close>

type_synonym register_file = "u32 list"

definition rf_wf :: "register_file \<Rightarrow> bool" where
  "rf_wf rf \<longleftrightarrow> length rf = unat (REGISTER_FILE_SIZE div 4)"

definition reg_init :: "register_file \<Rightarrow> register_file" where
  "reg_init rf = replicate (unat (REGISTER_FILE_SIZE div 4)) 0"

definition reg_read :: "register_file \<Rightarrow> u32 \<Rightarrow> u32" where
  "reg_read rf offset =
     (if offset \<ge> REGISTER_FILE_SIZE then 0xFFFFFFFF
      else rf ! unat (offset div 4))"

definition reg_write :: "register_file \<Rightarrow> u32 \<Rightarrow> u32 \<Rightarrow> register_file" where
  "reg_write rf offset val =
     (if offset \<ge> REGISTER_FILE_SIZE then rf
      else rf[unat (offset div 4) := val])"

definition reg_set_bits :: "register_file \<Rightarrow> u32 \<Rightarrow> u32 \<Rightarrow> register_file" where
  "reg_set_bits rf offset bits =
     (if offset \<ge> REGISTER_FILE_SIZE then rf
      else rf[unat (offset div 4) := (rf ! unat (offset div 4)) OR bits])"

definition reg_clear_bits :: "register_file \<Rightarrow> u32 \<Rightarrow> u32 \<Rightarrow> register_file" where
  "reg_clear_bits rf offset bits =
     (if offset \<ge> REGISTER_FILE_SIZE then rf
      else rf[unat (offset div 4) := (rf ! unat (offset div 4)) AND NOT bits])"


section \<open>Motor controller (motor_controller.h, motor_controller.c)\<close>

text \<open>
  The three contexts \<open>motor_controller_t\<close>, \<open>sensor_array_t\<close> and
  \<open>interrupt_controller_t\<close> each have a field \<open>regs\<close>, and two structs have a field
  \<open>state\<close>; record fields share one name space, so these carry the prefix of their
  struct (\<open>mc_\<close>, \<open>sa_\<close>, \<open>ic_\<close>, \<open>sn_\<close>). The field \<open>regs\<close> points to the register file;
  the model holds the register file itself in that field, and each component's functions
  touch only the component's own registers.
\<close>

datatype motor_state =
  MOTOR_STATE_IDLE | MOTOR_STATE_STARTING | MOTOR_STATE_RUNNING
  | MOTOR_STATE_STOPPING | MOTOR_STATE_FAULT | MOTOR_STATE_RECOVERY

datatype motor_direction = MOTOR_DIR_CCW | MOTOR_DIR_CW

datatype motor_fault =
  MOTOR_FAULT_NONE | MOTOR_FAULT_STALL | MOTOR_FAULT_OVERHEAT | MOTOR_FAULT_OVERCURRENT

record motor_controller =
  mc_regs :: register_file
  mc_state :: motor_state
  fault_code :: motor_fault
  target_speed :: u32
  current_speed :: u32
  position :: s32
  direction :: motor_direction

definition MAX_SPEED :: u32 where "MAX_SPEED = 10000"
definition SPEED_RAMP_RATE :: u32 where "SPEED_RAMP_RATE = 500"

definition motor_init :: "register_file \<Rightarrow> int \<times> motor_controller" where
  "motor_init regs =
     (let regs1 = reg_write regs REG_MOTOR_CTRL 0;
          regs2 = reg_write regs1 REG_MOTOR_STATUS 0;
          regs3 = reg_write regs2 REG_MOTOR_SPEED 0;
          regs4 = reg_write regs3 REG_MOTOR_POSITION 0
      in (0, \<lparr>mc_regs = regs4, mc_state = MOTOR_STATE_IDLE, fault_code = MOTOR_FAULT_NONE,
              target_speed = 0, current_speed = 0, position = 0,
              direction = MOTOR_DIR_CCW\<rparr>))"

definition motor_start ::
  "motor_controller \<Rightarrow> u32 \<Rightarrow> motor_direction \<Rightarrow> int \<times> motor_controller" where
  "motor_start mc speed dir =
     (if mc_state mc = MOTOR_STATE_FAULT then (- 2, mc)
      else
        let speed' = (if speed > MAX_SPEED then MAX_SPEED else speed);
            ctrl = (if dir = MOTOR_DIR_CW then MOTOR_CTRL_ENABLE OR MOTOR_CTRL_DIR_CW
                    else MOTOR_CTRL_ENABLE)
        in (0, mc\<lparr>target_speed := speed', direction := dir,
                  mc_state := MOTOR_STATE_STARTING,
                  mc_regs := reg_write (mc_regs mc) REG_MOTOR_CTRL ctrl\<rparr>))"

definition motor_stop :: "motor_controller \<Rightarrow> int \<times> motor_controller" where
  "motor_stop mc =
     (if mc_state mc = MOTOR_STATE_IDLE then (0, mc)
      else (0, mc\<lparr>target_speed := 0, mc_state := MOTOR_STATE_STOPPING,
                  mc_regs := reg_clear_bits (mc_regs mc) REG_MOTOR_CTRL MOTOR_CTRL_ENABLE\<rparr>))"

definition motor_brake :: "motor_controller \<Rightarrow> int \<times> motor_controller" where
  "motor_brake mc =
     (let regs1 = reg_set_bits (mc_regs mc) REG_MOTOR_CTRL MOTOR_CTRL_BRAKE;
          regs2 = reg_clear_bits regs1 REG_MOTOR_CTRL MOTOR_CTRL_ENABLE;
          regs3 = reg_write regs2 REG_MOTOR_SPEED 0;
          regs4 = reg_clear_bits regs3 REG_MOTOR_STATUS MOTOR_STATUS_RUNNING
      in (0, mc\<lparr>target_speed := 0, current_speed := 0, mc_state := MOTOR_STATE_IDLE,
                mc_regs := regs4\<rparr>))"

definition motor_set_speed :: "motor_controller \<Rightarrow> u32 \<Rightarrow> int \<times> motor_controller" where
  "motor_set_speed mc speed =
     (if mc_state mc = MOTOR_STATE_FAULT then (- 2, mc)
      else (0, mc\<lparr>target_speed := (if speed > MAX_SPEED then MAX_SPEED else speed)\<rparr>))"

definition motor_reset :: "motor_controller \<Rightarrow> int \<times> motor_controller" where
  "motor_reset mc =
     (let regs1 = reg_write (mc_regs mc) REG_MOTOR_CTRL MOTOR_CTRL_RESET;
          regs2 = reg_write regs1 REG_MOTOR_STATUS 0;
          regs3 = reg_write regs2 REG_MOTOR_SPEED 0;
          regs4 = reg_clear_bits regs3 REG_MOTOR_CTRL MOTOR_CTRL_RESET
      in (0, mc\<lparr>mc_state := MOTOR_STATE_IDLE, fault_code := MOTOR_FAULT_NONE,
                current_speed := 0, target_speed := 0, mc_regs := regs4\<rparr>))"

text \<open>The branches of the \<open>switch\<close> in \<open>motor_update\<close>, one definition per case.\<close>

definition motor_update_starting :: "motor_controller \<Rightarrow> motor_controller" where
  "motor_update_starting mc =
     (let mc1 =
            (if current_speed mc < target_speed mc then
               (let mc' = mc\<lparr>current_speed := current_speed mc + SPEED_RAMP_RATE\<rparr>
                in if current_speed mc' \<ge> target_speed mc'
                   then mc'\<lparr>current_speed := target_speed mc',
                            mc_state := MOTOR_STATE_RUNNING\<rparr>
                   else mc')
             else mc\<lparr>mc_state := MOTOR_STATE_RUNNING\<rparr>);
          regs1 = reg_write (mc_regs mc1) REG_MOTOR_SPEED (current_speed mc1);
          regs2 = reg_set_bits regs1 REG_MOTOR_STATUS MOTOR_STATUS_RUNNING
      in mc1\<lparr>mc_regs := regs2\<rparr>)"

definition motor_update_running :: "motor_controller \<Rightarrow> motor_controller" where
  "motor_update_running mc =
     (let mc1 =
            (if current_speed mc < target_speed mc then
               (let mc' = mc\<lparr>current_speed := current_speed mc + SPEED_RAMP_RATE\<rparr>
                in if current_speed mc' > target_speed mc'
                   then mc'\<lparr>current_speed := target_speed mc'\<rparr> else mc')
             else if current_speed mc > target_speed mc then
               (let mc' = mc\<lparr>current_speed := current_speed mc - SPEED_RAMP_RATE\<rparr>
                in if current_speed mc' < target_speed mc'
                   then mc'\<lparr>current_speed := target_speed mc'\<rparr> else mc')
             else mc);
          mc2 = mc1\<lparr>mc_regs := reg_write (mc_regs mc1) REG_MOTOR_SPEED (current_speed mc1)\<rparr>;
          mc3 =
            (if direction mc2 = MOTOR_DIR_CW
             then mc2\<lparr>position := position mc2 + current_speed mc2 div 100\<rparr>
             else mc2\<lparr>position := position mc2 - current_speed mc2 div 100\<rparr>)
      in mc3\<lparr>mc_regs := reg_write (mc_regs mc3) REG_MOTOR_POSITION (position mc3)\<rparr>)"

definition motor_update_stopping :: "motor_controller \<Rightarrow> motor_controller" where
  "motor_update_stopping mc =
     (let mc1 =
            (if current_speed mc > SPEED_RAMP_RATE
             then mc\<lparr>current_speed := current_speed mc - SPEED_RAMP_RATE\<rparr>
             else mc\<lparr>current_speed := 0, mc_state := MOTOR_STATE_IDLE,
                     mc_regs := reg_clear_bits (mc_regs mc) REG_MOTOR_STATUS
                                  MOTOR_STATUS_RUNNING\<rparr>)
      in mc1\<lparr>mc_regs := reg_write (mc_regs mc1) REG_MOTOR_SPEED (current_speed mc1)\<rparr>)"

definition motor_update :: "motor_controller \<Rightarrow> int \<times> motor_controller" where
  "motor_update mc =
     (let status = reg_read (mc_regs mc) REG_MOTOR_STATUS in
      if status AND (MOTOR_STATUS_FAULT OR MOTOR_STATUS_STALL OR MOTOR_STATUS_OVERHEAT) \<noteq> 0
      then
        (0, if mc_state mc \<noteq> MOTOR_STATE_FAULT
            then mc\<lparr>mc_state := MOTOR_STATE_FAULT,
                    fault_code :=
                      (if status AND MOTOR_STATUS_STALL \<noteq> 0 then MOTOR_FAULT_STALL
                       else if status AND MOTOR_STATUS_OVERHEAT \<noteq> 0 then MOTOR_FAULT_OVERHEAT
                       else MOTOR_FAULT_OVERCURRENT)\<rparr>
            else mc)
      else
        (0, case mc_state mc of
              MOTOR_STATE_IDLE \<Rightarrow> mc
            | MOTOR_STATE_STARTING \<Rightarrow> motor_update_starting mc
            | MOTOR_STATE_RUNNING \<Rightarrow> motor_update_running mc
            | MOTOR_STATE_STOPPING \<Rightarrow> motor_update_stopping mc
            | MOTOR_STATE_FAULT \<Rightarrow> mc
            | MOTOR_STATE_RECOVERY \<Rightarrow> mc\<lparr>mc_state := MOTOR_STATE_IDLE\<rparr>))"

definition motor_get_state :: "motor_controller \<Rightarrow> motor_state" where
  "motor_get_state mc = mc_state mc"

definition motor_get_fault :: "motor_controller \<Rightarrow> motor_fault" where
  "motor_get_fault mc = fault_code mc"

definition motor_get_speed :: "motor_controller \<Rightarrow> u32" where
  "motor_get_speed mc = current_speed mc"

definition motor_get_position :: "motor_controller \<Rightarrow> s32" where
  "motor_get_position mc = position mc"

definition motor_is_running :: "motor_controller \<Rightarrow> bool" where
  "motor_is_running mc \<longleftrightarrow>
     mc_state mc = MOTOR_STATE_RUNNING \<or> mc_state mc = MOTOR_STATE_STARTING"

definition motor_inject_fault :: "motor_controller \<Rightarrow> motor_fault \<Rightarrow> motor_controller" where
  "motor_inject_fault mc fault =
     (let mc1 = mc\<lparr>fault_code := fault, mc_state := MOTOR_STATE_FAULT\<rparr>
      in case fault of
           MOTOR_FAULT_STALL \<Rightarrow>
             mc1\<lparr>mc_regs := reg_set_bits (mc_regs mc1) REG_MOTOR_STATUS MOTOR_STATUS_STALL\<rparr>
         | MOTOR_FAULT_OVERHEAT \<Rightarrow>
             mc1\<lparr>mc_regs := reg_set_bits (mc_regs mc1) REG_MOTOR_STATUS MOTOR_STATUS_OVERHEAT\<rparr>
         | MOTOR_FAULT_OVERCURRENT \<Rightarrow>
             mc1\<lparr>mc_regs := reg_set_bits (mc_regs mc1) REG_MOTOR_STATUS MOTOR_STATUS_FAULT\<rparr>
         | MOTOR_FAULT_NONE \<Rightarrow> mc1)"

definition motor_clear_fault :: "motor_controller \<Rightarrow> int \<times> motor_controller" where
  "motor_clear_fault mc =
     (if mc_state mc \<noteq> MOTOR_STATE_FAULT then (0, mc)
      else (0, mc\<lparr>fault_code := MOTOR_FAULT_NONE, mc_state := MOTOR_STATE_RECOVERY,
                  mc_regs := reg_write (mc_regs mc) REG_MOTOR_STATUS 0\<rparr>))"

text \<open>No fault bit (fault, stall, overheat) is set in MOTOR_STATUS: the condition
  under which \<open>motor_update\<close> runs the state machine.\<close>

definition motor_no_fault :: "motor_controller \<Rightarrow> bool" where
  "motor_no_fault mc \<longleftrightarrow>
     reg_read (mc_regs mc) REG_MOTOR_STATUS
       AND (MOTOR_STATUS_FAULT OR MOTOR_STATUS_STALL OR MOTOR_STATUS_OVERHEAT) = 0"

text \<open>
  Callers of the motor API: \<open>motor_ticks n\<close> is \<open>n\<close> consecutive calls of
  \<open>motor_update\<close> (the repetitions \<open>for (i = 0; i < n; i++) motor_update(&mc)\<close> of the tests
  and of the driver loop), and \<open>motor_run\<close> performs a sequence of calls of the entry
  points, discarding their return codes.
\<close>

primrec motor_ticks :: "nat \<Rightarrow> motor_controller \<Rightarrow> motor_controller" where
  "motor_ticks 0 mc = mc"
| "motor_ticks (Suc n) mc = snd (motor_update (motor_ticks n mc))"

datatype motor_op =
  Op_start u32 motor_direction | Op_stop | Op_brake | Op_set_speed u32 | Op_reset
  | Op_update | Op_inject_fault motor_fault | Op_clear_fault

fun motor_apply :: "motor_controller \<Rightarrow> motor_op \<Rightarrow> motor_controller" where
  "motor_apply mc (Op_start speed dir) = snd (motor_start mc speed dir)"
| "motor_apply mc Op_stop = snd (motor_stop mc)"
| "motor_apply mc Op_brake = snd (motor_brake mc)"
| "motor_apply mc (Op_set_speed speed) = snd (motor_set_speed mc speed)"
| "motor_apply mc Op_reset = snd (motor_reset mc)"
| "motor_apply mc Op_update = snd (motor_update mc)"
| "motor_apply mc (Op_inject_fault fault) = motor_inject_fault mc fault"
| "motor_apply mc Op_clear_fault = snd (motor_clear_fault mc)"

definition motor_run :: "motor_controller \<Rightarrow> motor_op list \<Rightarrow> motor_controller" where
  "motor_run mc ops = foldl motor_apply mc ops"

section \<open>Sensor array (sensor_array.h, sensor_array.c)\<close>

definition SENSOR_COUNT :: nat where "SENSOR_COUNT = 4"
definition SENSOR_BUFFER_SIZE :: nat where "SENSOR_BUFFER_SIZE = 16"

datatype sensor_type =
  SENSOR_TYPE_POSITION | SENSOR_TYPE_VELOCITY | SENSOR_TYPE_TEMPERATURE | SENSOR_TYPE_CURRENT

datatype sensor_state =
  SENSOR_STATE_DISABLED | SENSOR_STATE_IDLE | SENSOR_STATE_SAMPLING | SENSOR_STATE_ERROR

record sensor =
  sn_type :: sensor_type
  sn_state :: sensor_state
  sn_value :: s32
  min_value :: s32
  max_value :: s32
  sample_count :: u32

record sensor_array =
  sa_regs :: register_file
  sensors :: "sensor list"
  buffer :: "s32 list"
  buffer_head :: u8
  buffer_tail :: u8
  continuous_mode :: bool

text \<open>
  \<open>sensor_array_init\<close>: after the \<open>memset\<close> every field is zero (value 0, sample count 0,
  empty ring, continuous mode off); the assignments then give each channel its type and
  range, and the loop sets each state to disabled.
\<close>

definition sensor_config :: "sensor_type \<Rightarrow> s32 \<Rightarrow> s32 \<Rightarrow> sensor" where
  "sensor_config t lo hi =
     \<lparr>sn_type = t, sn_state = SENSOR_STATE_DISABLED, sn_value = 0,
      min_value = lo, max_value = hi, sample_count = 0\<rparr>"

definition sensor_array_init :: "register_file \<Rightarrow> int \<times> sensor_array" where
  "sensor_array_init regs =
     (let regs1 = reg_write regs REG_SENSOR_CTRL 0;
          regs2 = reg_write regs1 REG_SENSOR_DATA 0;
          regs3 = reg_write regs2 REG_SENSOR_STATUS 0
      in (0, \<lparr>sa_regs = regs3,
              sensors = [sensor_config SENSOR_TYPE_POSITION (- 10000) 10000,
                         sensor_config SENSOR_TYPE_VELOCITY 0 10000,
                         sensor_config SENSOR_TYPE_TEMPERATURE (- 40) 125,
                         sensor_config SENSOR_TYPE_CURRENT 0 5000],
              buffer = replicate SENSOR_BUFFER_SIZE 0,
              buffer_head = 0, buffer_tail = 0, continuous_mode = False\<rparr>))"

definition set_sensor_state :: "sensor_state \<Rightarrow> sensor list \<Rightarrow> nat \<Rightarrow> sensor list" where
  "set_sensor_state st ss i = ss[i := (ss ! i)\<lparr>sn_state := st\<rparr>]"

definition sensor_array_enable :: "sensor_array \<Rightarrow> int \<times> sensor_array" where
  "sensor_array_enable sa =
     (let ss = foldl (set_sensor_state SENSOR_STATE_IDLE) (sensors sa) [0..<SENSOR_COUNT];
          regs1 = reg_set_bits (sa_regs sa) REG_SENSOR_CTRL SENSOR_CTRL_ENABLE;
          regs2 = reg_set_bits regs1 REG_SENSOR_STATUS SENSOR_STATUS_READY
      in (0, sa\<lparr>sensors := ss, sa_regs := regs2\<rparr>))"

definition sensor_array_disable :: "sensor_array \<Rightarrow> int \<times> sensor_array" where
  "sensor_array_disable sa =
     (let ss = foldl (set_sensor_state SENSOR_STATE_DISABLED) (sensors sa) [0..<SENSOR_COUNT];
          regs1 = reg_clear_bits (sa_regs sa) REG_SENSOR_CTRL SENSOR_CTRL_ENABLE;
          regs2 = reg_clear_bits regs1 REG_SENSOR_STATUS SENSOR_STATUS_READY
      in (0, sa\<lparr>sensors := ss, sa_regs := regs2\<rparr>))"

definition trigger_sensor :: "sensor list \<Rightarrow> nat \<Rightarrow> sensor list" where
  "trigger_sensor ss i =
     (if sn_state (ss ! i) = SENSOR_STATE_IDLE
      then ss[i := (ss ! i)\<lparr>sn_state := SENSOR_STATE_SAMPLING,
                            sample_count := sample_count (ss ! i) + 1\<rparr>]
      else ss)"

definition sensor_array_trigger :: "sensor_array \<Rightarrow> int \<times> sensor_array" where
  "sensor_array_trigger sa =
     (if reg_read (sa_regs sa) REG_SENSOR_CTRL AND SENSOR_CTRL_ENABLE = 0 then (- 2, sa)
      else
        let regs1 = reg_set_bits (sa_regs sa) REG_SENSOR_CTRL SENSOR_CTRL_TRIGGER;
            ss = foldl trigger_sensor (sensors sa) [0..<SENSOR_COUNT]
        in (0, sa\<lparr>sa_regs := regs1, sensors := ss\<rparr>))"

definition sensor_array_set_continuous :: "sensor_array \<Rightarrow> bool \<Rightarrow> int \<times> sensor_array" where
  "sensor_array_set_continuous sa enable =
     (0, sa\<lparr>continuous_mode := enable,
            sa_regs := (if enable
                        then reg_set_bits (sa_regs sa) REG_SENSOR_CTRL SENSOR_CTRL_CONTINUOUS
                        else reg_clear_bits (sa_regs sa) REG_SENSOR_CTRL
                               SENSOR_CTRL_CONTINUOUS)\<rparr>)"

definition sensor_read :: "sensor_array \<Rightarrow> u8 \<Rightarrow> s32" where
  "sensor_read sa sensor_id =
     (if unat sensor_id \<ge> SENSOR_COUNT then 0
      else sn_value (sensors sa ! unat sensor_id))"

text \<open>
  \<open>sensor_buffer_push\<close>: \<open>buffer_head + 1\<close> is computed in \<open>int\<close> (the \<open>uint8_t\<close> is
  promoted), reduced modulo the capacity and stored back in a \<open>uint8_t\<close>.
\<close>

definition sensor_buffer_push :: "sensor_array \<Rightarrow> s32 \<Rightarrow> int \<times> sensor_array" where
  "sensor_buffer_push sa val =
     (let next = (of_nat ((unat (buffer_head sa) + 1) mod SENSOR_BUFFER_SIZE) :: u8) in
      if next = buffer_tail sa
      then (- 2, sa\<lparr>sa_regs := reg_set_bits (sa_regs sa) REG_SENSOR_STATUS
                                 SENSOR_STATUS_OVERFLOW\<rparr>)
      else (0, sa\<lparr>buffer := (buffer sa)[unat (buffer_head sa) := val],
                  buffer_head := next\<rparr>))"

text \<open>\<open>sensor_buffer_pop\<close> returns its code, the value stored through the out-parameter
  (if any) and the updated array.\<close>

definition sensor_buffer_pop :: "sensor_array \<Rightarrow> int \<times> s32 option \<times> sensor_array" where
  "sensor_buffer_pop sa =
     (if buffer_head sa = buffer_tail sa then (- 2, None, sa)
      else (0, Some (buffer sa ! unat (buffer_tail sa)),
            sa\<lparr>buffer_tail :=
                 of_nat ((unat (buffer_tail sa) + 1) mod SENSOR_BUFFER_SIZE)\<rparr>))"

definition sensor_buffer_count :: "sensor_array \<Rightarrow> int" where
  "sensor_buffer_count sa =
     (if buffer_head sa \<ge> buffer_tail sa then uint (buffer_head sa) - uint (buffer_tail sa)
      else int SENSOR_BUFFER_SIZE - uint (buffer_tail sa) + uint (buffer_head sa))"

definition sensor_buffer_clear :: "sensor_array \<Rightarrow> sensor_array" where
  "sensor_buffer_clear sa =
     sa\<lparr>buffer_head := 0, buffer_tail := 0,
        sa_regs := reg_clear_bits (sa_regs sa) REG_SENSOR_STATUS SENSOR_STATUS_OVERFLOW\<rparr>"

definition sensor_get_state :: "sensor_array \<Rightarrow> u8 \<Rightarrow> sensor_state" where
  "sensor_get_state sa sensor_id =
     (if unat sensor_id \<ge> SENSOR_COUNT then SENSOR_STATE_ERROR
      else sn_state (sensors sa ! unat sensor_id))"

definition sensor_is_ready :: "sensor_array \<Rightarrow> bool" where
  "sensor_is_ready sa \<longleftrightarrow>
     reg_read (sa_regs sa) REG_SENSOR_STATUS AND SENSOR_STATUS_READY \<noteq> 0"

definition sensor_has_error :: "sensor_array \<Rightarrow> bool" where
  "sensor_has_error sa \<longleftrightarrow>
     reg_read (sa_regs sa) REG_SENSOR_STATUS AND SENSOR_STATUS_ERROR \<noteq> 0"

text \<open>The body of the loop of \<open>sensor_array_update\<close> for channel \<open>i\<close>; the comparisons
  are on \<open>int32_t\<close>, that is signed.\<close>

definition update_sensor :: "sensor_array \<Rightarrow> nat \<Rightarrow> sensor_array" where
  "update_sensor sa i =
     (if sn_state (sensors sa ! i) = SENSOR_STATE_SAMPLING then
        let s1 = (sensors sa ! i)\<lparr>sn_state := SENSOR_STATE_IDLE\<rparr>;
            s2 = (if sint (sn_value s1) < sint (min_value s1)
                  then s1\<lparr>sn_value := min_value s1\<rparr> else s1);
            s3 = (if sint (sn_value s2) > sint (max_value s2)
                  then s2\<lparr>sn_value := max_value s2\<rparr> else s2);
            sa1 = sa\<lparr>sensors := (sensors sa)[i := s3]\<rparr>
        in if continuous_mode sa1 then snd (sensor_buffer_push sa1 (sn_value s3)) else sa1
      else sa)"

definition sensor_array_update :: "sensor_array \<Rightarrow> int \<times> sensor_array" where
  "sensor_array_update sa =
     (let sa1 = foldl update_sensor sa [0..<SENSOR_COUNT];
          sa2 = sa1\<lparr>sa_regs := reg_clear_bits (sa_regs sa1) REG_SENSOR_CTRL
                                  SENSOR_CTRL_TRIGGER\<rparr>
      in (0, if continuous_mode sa2 \<and> sensor_is_ready sa2
             then snd (sensor_array_trigger sa2) else sa2))"

definition sensor_set_simulated_value :: "sensor_array \<Rightarrow> u8 \<Rightarrow> s32 \<Rightarrow> sensor_array" where
  "sensor_set_simulated_value sa sensor_id val =
     (if unat sensor_id \<ge> SENSOR_COUNT then sa
      else sa\<lparr>sensors := (sensors sa)[unat sensor_id :=
                 (sensors sa ! unat sensor_id)\<lparr>sn_value := val\<rparr>]\<rparr>)"

text \<open>
  The array types of \<open>sensor_array_t\<close>: four channels, a ring of sixteen slots, and ring
  indices below the capacity (every store to an index is reduced modulo the capacity).
\<close>

definition sa_wf :: "sensor_array \<Rightarrow> bool" where
  "sa_wf sa \<longleftrightarrow>
     rf_wf (sa_regs sa) \<and> length (sensors sa) = SENSOR_COUNT
     \<and> length (buffer sa) = SENSOR_BUFFER_SIZE
     \<and> unat (buffer_head sa) < SENSOR_BUFFER_SIZE
     \<and> unat (buffer_tail sa) < SENSOR_BUFFER_SIZE"

text \<open>A caller pushing a list of samples one after the other, collecting the return
  codes in order.\<close>

fun push_all :: "sensor_array \<Rightarrow> s32 list \<Rightarrow> int list \<times> sensor_array" where
  "push_all sa [] = ([], sa)"
| "push_all sa (v # vs) =
     (let (r, sa1) = sensor_buffer_push sa v; (rs, sa2) = push_all sa1 vs
      in (r # rs, sa2))"

text \<open>
  What the two loops do to one channel, for stating their effect on the whole array.
  \<open>sensor_triggered\<close>: the body of the loop of \<open>sensor_array_trigger\<close>.
  \<open>sensor_sampled\<close>: the body of the loop of \<open>sensor_array_update\<close> without the
  push, which does not touch the channels; the two \<open>if\<close>s are the code's, in its
  order, on signed values.
\<close>

definition sensor_triggered :: "sensor \<Rightarrow> sensor" where
  "sensor_triggered s =
     (if sn_state s = SENSOR_STATE_IDLE
      then s\<lparr>sn_state := SENSOR_STATE_SAMPLING, sample_count := sample_count s + 1\<rparr>
      else s)"

definition sensor_sampled :: "sensor \<Rightarrow> sensor" where
  "sensor_sampled s =
     (if sn_state s = SENSOR_STATE_SAMPLING then
        let s1 = s\<lparr>sn_state := SENSOR_STATE_IDLE\<rparr>;
            s2 = (if sint (sn_value s1) < sint (min_value s1)
                  then s1\<lparr>sn_value := min_value s1\<rparr> else s1)
        in (if sint (sn_value s2) > sint (max_value s2)
            then s2\<lparr>sn_value := max_value s2\<rparr> else s2)
      else s)"

section \<open>Interrupt controller (interrupt_handler.h, interrupt_handler.c)\<close>

text \<open>
  An \<open>interrupt_source_t\<close> is its index. A handler is a function pointer and a context
  is a \<open>void *\<close>: both are addresses, \<open>0\<close> being \<open>NULL\<close>. What the code at a handler's
  address does is a parameter \<open>call\<close> of the dispatcher: \<open>call h source ctx\<close> transforms
  the interrupt controller (a handler may reach it, for instance to trigger again) and
  the rest of the program's state \<open>'w\<close>. The fields \<open>motor\<close> and \<open>sensors\<close> are
  non-owning pointers that no function of the controller dereferences.
\<close>

type_synonym interrupt_source = nat
type_synonym irq_handler = nat
type_synonym context_ptr = nat

definition INT_MOTOR_FAULT :: interrupt_source where "INT_MOTOR_FAULT = 0"
definition INT_MOTOR_STALL :: interrupt_source where "INT_MOTOR_STALL = 1"
definition INT_SENSOR_READY :: interrupt_source where "INT_SENSOR_READY = 2"
definition INT_SENSOR_ERROR :: interrupt_source where "INT_SENSOR_ERROR = 3"
definition INT_TIMER :: interrupt_source where "INT_TIMER = 4"
definition INT_COUNT :: nat where "INT_COUNT = 5"

text \<open>The host's signal numbers (\<open>signal.h\<close> on Linux); only their being distinct
  matters.\<close>

definition SIGUSR1 :: int where "SIGUSR1 = 10"
definition SIGUSR2 :: int where "SIGUSR2 = 12"

record interrupt_controller =
  ic_regs :: register_file
  ic_motor :: nat
  ic_sensors :: nat
  handlers :: "irq_handler list"
  handler_contexts :: "context_ptr list"
  pending_irqs :: u32
  enabled_irqs :: u32
  signal_received :: int

text \<open>
  \<open>irq_init\<close> also stores the controller's address in the global
  \<open>g_irq_controller\<close>. The global is modelled where it is read, in
  \<open>irq_signal_handler\<close>, whose first argument is the controller the global points to
  (\<open>None\<close> when the global is \<open>NULL\<close>): after \<open>irq_init\<close> it is the controller
  returned here, after \<open>irq_cleanup\<close> it is \<open>None\<close>.
\<close>

definition irq_init :: "register_file \<Rightarrow> nat \<Rightarrow> nat \<Rightarrow> int \<times> interrupt_controller" where
  "irq_init regs motor sensrs =
     (let regs1 = reg_write regs REG_IRQ_STATUS 0;
          regs2 = reg_write regs1 REG_IRQ_ENABLE 0
      in (0, \<lparr>ic_regs = regs2, ic_motor = motor, ic_sensors = sensrs,
              handlers = replicate INT_COUNT 0,
              handler_contexts = replicate INT_COUNT 0,
              pending_irqs = 0, enabled_irqs = 0, signal_received = 0\<rparr>))"

definition irq_register_handler ::
  "interrupt_controller \<Rightarrow> interrupt_source \<Rightarrow> irq_handler \<Rightarrow> context_ptr
   \<Rightarrow> int \<times> interrupt_controller" where
  "irq_register_handler ic source handler ctx =
     (if source \<ge> INT_COUNT then (- 1, ic)
      else (0, ic\<lparr>handlers := (handlers ic)[source := handler],
                  handler_contexts := (handler_contexts ic)[source := ctx]\<rparr>))"

definition irq_unregister_handler ::
  "interrupt_controller \<Rightarrow> interrupt_source \<Rightarrow> int \<times> interrupt_controller" where
  "irq_unregister_handler ic source =
     (if source \<ge> INT_COUNT then (- 1, ic)
      else (0, ic\<lparr>handlers := (handlers ic)[source := 0],
                  handler_contexts := (handler_contexts ic)[source := 0]\<rparr>))"

definition irq_enable ::
  "interrupt_controller \<Rightarrow> interrupt_source \<Rightarrow> int \<times> interrupt_controller" where
  "irq_enable ic source =
     (if source \<ge> INT_COUNT then (- 1, ic)
      else (0, ic\<lparr>enabled_irqs := enabled_irqs ic OR push_bit source 1,
                  ic_regs := reg_set_bits (ic_regs ic) REG_IRQ_ENABLE (push_bit source 1)\<rparr>))"

definition irq_disable ::
  "interrupt_controller \<Rightarrow> interrupt_source \<Rightarrow> int \<times> interrupt_controller" where
  "irq_disable ic source =
     (if source \<ge> INT_COUNT then (- 1, ic)
      else (0, ic\<lparr>enabled_irqs := enabled_irqs ic AND NOT (push_bit source 1),
                  ic_regs := reg_clear_bits (ic_regs ic) REG_IRQ_ENABLE
                               (push_bit source 1)\<rparr>))"

definition irq_enable_all :: "interrupt_controller \<Rightarrow> interrupt_controller" where
  "irq_enable_all ic =
     (let ic1 = ic\<lparr>enabled_irqs := push_bit INT_COUNT 1 - 1\<rparr>
      in ic1\<lparr>ic_regs := reg_write (ic_regs ic1) REG_IRQ_ENABLE (enabled_irqs ic1)\<rparr>)"

definition irq_disable_all :: "interrupt_controller \<Rightarrow> interrupt_controller" where
  "irq_disable_all ic =
     ic\<lparr>enabled_irqs := 0, ic_regs := reg_write (ic_regs ic) REG_IRQ_ENABLE 0\<rparr>"

definition irq_trigger :: "interrupt_controller \<Rightarrow> interrupt_source \<Rightarrow> interrupt_controller" where
  "irq_trigger ic source =
     (if source \<ge> INT_COUNT then ic
      else if enabled_irqs ic AND push_bit source 1 \<noteq> 0
      then ic\<lparr>pending_irqs := pending_irqs ic OR push_bit source 1,
              ic_regs := reg_set_bits (ic_regs ic) REG_IRQ_STATUS (push_bit source 1)\<rparr>
      else ic)"

text \<open>
  \<open>irq_process_pending\<close>. The loop body for source \<open>i\<close> carries the counter
  \<open>processed\<close>, the controller and the rest of the state, and, for the claims about the
  order of dispatch, the list of calls made so far: each call as the handler's address,
  the source and the context passed.
\<close>

type_synonym irq_call = "irq_handler \<times> interrupt_source \<times> context_ptr"

definition irq_dispatch ::
  "(irq_handler \<Rightarrow> interrupt_source \<Rightarrow> context_ptr
      \<Rightarrow> interrupt_controller \<times> 'w \<Rightarrow> interrupt_controller \<times> 'w)
   \<Rightarrow> int \<times> irq_call list \<times> interrupt_controller \<times> 'w \<Rightarrow> nat
   \<Rightarrow> int \<times> irq_call list \<times> interrupt_controller \<times> 'w" where
  "irq_dispatch call acc i =
     (case acc of (processed, calls, ic, w) \<Rightarrow>
        if pending_irqs ic AND push_bit i 1 \<noteq> 0 \<and> handlers ic ! i \<noteq> 0
        then
          (case call (handlers ic ! i) i (handler_contexts ic ! i) (ic, w) of
             (ic', w') \<Rightarrow>
               (processed + 1,
                calls @ [(handlers ic ! i, i, handler_contexts ic ! i)], ic', w'))
        else (processed, calls, ic, w))"

text \<open>The first block of \<open>irq_process_pending\<close>: a set signal latch is cleared and
  turned into a trigger of the timer source.\<close>

definition irq_latch :: "interrupt_controller \<Rightarrow> interrupt_controller" where
  "irq_latch ic =
     (if signal_received ic \<noteq> 0
      then irq_trigger (ic\<lparr>signal_received := 0\<rparr>) INT_TIMER else ic)"

definition irq_process_pending ::
  "(irq_handler \<Rightarrow> interrupt_source \<Rightarrow> context_ptr
      \<Rightarrow> interrupt_controller \<times> 'w \<Rightarrow> interrupt_controller \<times> 'w)
   \<Rightarrow> interrupt_controller \<Rightarrow> 'w
   \<Rightarrow> int \<times> irq_call list \<times> interrupt_controller \<times> 'w" where
  "irq_process_pending call ic w =
     (let ic1 = irq_latch ic
      in case foldl (irq_dispatch call) (0, [], ic1, w) [0..<INT_COUNT] of
           (processed, calls, ic2, w2) \<Rightarrow>
             (processed, calls,
              ic2\<lparr>pending_irqs := 0, ic_regs := reg_write (ic_regs ic2) REG_IRQ_STATUS 0\<rparr>,
              w2))"

definition irq_is_pending :: "interrupt_controller \<Rightarrow> interrupt_source \<Rightarrow> bool" where
  "irq_is_pending ic source \<longleftrightarrow>
     source < INT_COUNT \<and> pending_irqs ic AND push_bit source 1 \<noteq> 0"

definition irq_get_pending_mask :: "interrupt_controller \<Rightarrow> u32" where
  "irq_get_pending_mask ic = pending_irqs ic"

definition irq_clear :: "interrupt_controller \<Rightarrow> interrupt_source \<Rightarrow> interrupt_controller" where
  "irq_clear ic source =
     (if source \<ge> INT_COUNT then ic
      else ic\<lparr>pending_irqs := pending_irqs ic AND NOT (push_bit source 1),
              ic_regs := reg_clear_bits (ic_regs ic) REG_IRQ_STATUS (push_bit source 1)\<rparr>)"

definition irq_signal_handler ::
  "interrupt_controller option \<Rightarrow> int \<Rightarrow> interrupt_controller option" where
  "irq_signal_handler g_irq_controller signum =
     (case g_irq_controller of
        None \<Rightarrow> None
      | Some ic \<Rightarrow>
          (let ic1 = ic\<lparr>signal_received := 1\<rparr> in
           if signum = SIGUSR1
           then Some (ic1\<lparr>pending_irqs := pending_irqs ic1 OR push_bit INT_MOTOR_FAULT 1\<rparr>)
           else if signum = SIGUSR2
           then Some (ic1\<lparr>pending_irqs := pending_irqs ic1 OR push_bit INT_SENSOR_READY 1\<rparr>)
           else Some ic1))"

text \<open>
  The array types of \<open>interrupt_controller_t\<close>: one handler slot and one context slot
  per source, and the register file's nine words.
\<close>

definition ic_wf :: "interrupt_controller \<Rightarrow> bool" where
  "ic_wf ic \<longleftrightarrow>
     rf_wf (ic_regs ic) \<and> length (handlers ic) = INT_COUNT
     \<and> length (handler_contexts ic) = INT_COUNT"

text \<open>When source \<open>i\<close> is dispatched from controller \<open>ic\<close>: its pending bit is set
  and a handler is registered.\<close>

definition irq_due :: "interrupt_controller \<Rightarrow> interrupt_source \<Rightarrow> bool" where
  "irq_due ic i \<longleftrightarrow> pending_irqs ic AND push_bit i 1 \<noteq> 0 \<and> handlers ic ! i \<noteq> 0"

text \<open>
  \<open>irq_replay\<close> runs the handler code on a list of calls, in order, each with the
  handler address, source and context the list gives. \<open>irq_reached call ic w calls i\<close>
  is the state in which the loop of \<open>irq_process_pending\<close> reaches source \<open>i\<close>
  when \<open>calls\<close> are the calls it makes: the state after the latch step and after the
  calls for the sources below \<open>i\<close>.
\<close>

definition irq_replay ::
  "(irq_handler \<Rightarrow> interrupt_source \<Rightarrow> context_ptr
      \<Rightarrow> interrupt_controller \<times> 'w \<Rightarrow> interrupt_controller \<times> 'w)
   \<Rightarrow> interrupt_controller \<times> 'w \<Rightarrow> irq_call list
   \<Rightarrow> interrupt_controller \<times> 'w" where
  "irq_replay call st calls =
     foldl (\<lambda>st c. call (fst c) (fst (snd c)) (snd (snd c)) st) st calls"

definition irq_reached ::
  "(irq_handler \<Rightarrow> interrupt_source \<Rightarrow> context_ptr
      \<Rightarrow> interrupt_controller \<times> 'w \<Rightarrow> interrupt_controller \<times> 'w)
   \<Rightarrow> interrupt_controller \<Rightarrow> 'w \<Rightarrow> irq_call list \<Rightarrow> interrupt_source
   \<Rightarrow> interrupt_controller \<times> 'w" where
  "irq_reached call ic w calls i =
     irq_replay call (irq_latch ic, w) (filter (\<lambda>c. fst (snd c) < i) calls)"

text \<open>A handler that does nothing but append the arguments it is called with to a
  list of its own, for instances.\<close>

definition irq_recorder ::
  "irq_handler \<Rightarrow> interrupt_source \<Rightarrow> context_ptr
   \<Rightarrow> interrupt_controller \<times> irq_call list \<Rightarrow> interrupt_controller \<times> irq_call list" where
  "irq_recorder h s c st = (fst st, snd st @ [(h, s, c)])"

text \<open>
  Two conditions on what handlers do. \<open>handlers_keep_wf\<close>: a handler leaves the
  controller's arrays arrays of the same sizes (in C it cannot do otherwise).
  \<open>handlers_keep_table\<close>: a handler changes neither the pending mask nor the handler
  and context tables, so that the sources due at the start of the loop are the sources
  due when the loop reaches them.
\<close>

definition handlers_keep_wf ::
  "(irq_handler \<Rightarrow> interrupt_source \<Rightarrow> context_ptr
      \<Rightarrow> interrupt_controller \<times> 'w \<Rightarrow> interrupt_controller \<times> 'w) \<Rightarrow> bool" where
  "handlers_keep_wf call \<longleftrightarrow>
     (\<forall>h s c ic w. ic_wf ic \<longrightarrow> ic_wf (fst (call h s c (ic, w))))"

definition handlers_keep_table ::
  "(irq_handler \<Rightarrow> interrupt_source \<Rightarrow> context_ptr
      \<Rightarrow> interrupt_controller \<times> 'w \<Rightarrow> interrupt_controller \<times> 'w) \<Rightarrow> bool" where
  "handlers_keep_table call \<longleftrightarrow>
     (\<forall>h s c ic w.
        pending_irqs (fst (call h s c (ic, w))) = pending_irqs ic
        \<and> handlers (fst (call h s c (ic, w))) = handlers ic
        \<and> handler_contexts (fst (call h s c (ic, w))) = handler_contexts ic)"

section \<open>Register file: basic facts\<close>

lemmas reg_offsets =
  REG_MOTOR_CTRL_def REG_MOTOR_STATUS_def REG_MOTOR_SPEED_def REG_MOTOR_POSITION_def
  REG_SENSOR_CTRL_def REG_SENSOR_DATA_def REG_SENSOR_STATUS_def
  REG_IRQ_STATUS_def REG_IRQ_ENABLE_def

lemmas reg_bits =
  MOTOR_CTRL_ENABLE_def MOTOR_CTRL_DIR_CW_def MOTOR_CTRL_BRAKE_def MOTOR_CTRL_RESET_def
  MOTOR_STATUS_RUNNING_def MOTOR_STATUS_FAULT_def MOTOR_STATUS_STALL_def
  MOTOR_STATUS_OVERHEAT_def
  SENSOR_CTRL_ENABLE_def SENSOR_CTRL_CONTINUOUS_def SENSOR_CTRL_TRIGGER_def
  SENSOR_STATUS_READY_def SENSOR_STATUS_OVERFLOW_def SENSOR_STATUS_ERROR_def

lemma rf_wf_length: "rf_wf rf \<longleftrightarrow> length rf = 9"
  by (simp add: rf_wf_def REGISTER_FILE_SIZE_def)

lemma reg_index_less:
  fixes offset :: u32
  assumes "offset < 0x24"
  shows "unat (offset div 4) < 9"
proof -
  from assms have "unat offset < 36"
    by (simp add: word_less_nat_alt)
  then show ?thesis
    by (simp add: unat_div)
qed

lemma rf_wf_reg_init: "rf_wf (reg_init rf)"
  by (simp add: rf_wf_def reg_init_def)

lemma rf_wf_reg_write: "rf_wf rf \<Longrightarrow> rf_wf (reg_write rf offset val)"
  by (simp add: rf_wf_def reg_write_def)

lemma rf_wf_reg_set_bits: "rf_wf rf \<Longrightarrow> rf_wf (reg_set_bits rf offset bits)"
  by (simp add: rf_wf_def reg_set_bits_def)

lemma rf_wf_reg_clear_bits: "rf_wf rf \<Longrightarrow> rf_wf (reg_clear_bits rf offset bits)"
  by (simp add: rf_wf_def reg_clear_bits_def)

lemmas rf_wf_intros =
  rf_wf_reg_init rf_wf_reg_write rf_wf_reg_set_bits rf_wf_reg_clear_bits

lemma reg_in_range:
  fixes offset :: u32
  shows "offset < REGISTER_FILE_SIZE \<longleftrightarrow> \<not> REGISTER_FILE_SIZE \<le> offset"
  by (simp add: not_le)

lemma reg_index_in_range:
  assumes "rf_wf rf" and "offset < REGISTER_FILE_SIZE"
  shows "unat (offset div 4) < length rf"
  using assms reg_index_less [of offset]
  by (simp add: rf_wf_length REGISTER_FILE_SIZE_def)

lemma reg_read_out_of_range:
  "REGISTER_FILE_SIZE \<le> offset \<Longrightarrow> reg_read rf offset = 0xFFFFFFFF"
  by (simp add: reg_read_def)

lemma reg_read_reg_write:
  assumes "rf_wf rf" and "offset < REGISTER_FILE_SIZE" and "offset' < REGISTER_FILE_SIZE"
  shows "reg_read (reg_write rf offset val) offset' =
     (if offset' div 4 = offset div 4 then val else reg_read rf offset')"
  using reg_index_in_range [OF assms(1,2)] assms(2,3)
  by (simp add: reg_read_def reg_write_def reg_in_range word_unat_eq_iff)

lemma reg_read_reg_set_bits:
  assumes "rf_wf rf" and "offset < REGISTER_FILE_SIZE" and "offset' < REGISTER_FILE_SIZE"
  shows "reg_read (reg_set_bits rf offset bits) offset' =
     (if offset' div 4 = offset div 4 then reg_read rf offset OR bits
      else reg_read rf offset')"
  using reg_index_in_range [OF assms(1,2)] assms(2,3)
  by (simp add: reg_read_def reg_set_bits_def reg_in_range word_unat_eq_iff)

lemma reg_read_reg_clear_bits:
  assumes "rf_wf rf" and "offset < REGISTER_FILE_SIZE" and "offset' < REGISTER_FILE_SIZE"
  shows "reg_read (reg_clear_bits rf offset bits) offset' =
     (if offset' div 4 = offset div 4 then reg_read rf offset AND NOT bits
      else reg_read rf offset')"
  using reg_index_in_range [OF assms(1,2)] assms(2,3)
  by (simp add: reg_read_def reg_clear_bits_def reg_in_range word_unat_eq_iff)

lemma clear_then_set_word: "(w AND NOT m) OR m = w OR (m :: u32)"
  by (simp add: bit_eq_iff bit_simps) blast

lemma word_align_div:
  fixes offset :: u32
  shows "(offset - offset mod 4) div 4 = offset div 4"
proof -
  have "unat (offset mod 4) \<le> unat offset"
    by (simp add: unat_mod)
  then have le: "offset mod 4 \<le> offset"
    by (simp add: word_le_nat_alt)
  have "unat ((offset - offset mod 4) div 4) = (unat offset - unat offset mod 4) div 4"
    using le by (simp add: unat_div unat_sub unat_mod)
  also have "\<dots> = unat offset div 4"
    by presburger
  also have "\<dots> = unat (offset div 4)"
    by (simp add: unat_div)
  finally show ?thesis by (simp add: word_unat_eq_iff)
qed

lemma word_align_less:
  fixes offset :: u32
  assumes "offset < REGISTER_FILE_SIZE"
  shows "offset - offset mod 4 < REGISTER_FILE_SIZE"
proof -
  have "unat (offset mod 4) \<le> unat offset"
    by (simp add: unat_mod)
  then have le: "offset mod 4 \<le> offset"
    by (simp add: word_le_nat_alt)
  have "unat (offset - offset mod 4) \<le> unat offset"
    using le by (simp add: unat_sub)
  then show ?thesis
    using assms by (simp add: word_less_nat_alt)
qed

lemma reg_read_reg_init:
  assumes "offset < REGISTER_FILE_SIZE"
  shows "reg_read (reg_init rf) offset = 0"
  using assms reg_index_less [of offset]
  by (simp add: reg_read_def reg_init_def REGISTER_FILE_SIZE_def reg_in_range)

section \<open>Register file: claims\<close>

text \<open>
  Claim C1. For every offset below \<open>0x24\<close> that is a multiple of 4 and every value,
  a write followed by a read of the same offset returns the value. For every offset from
  \<open>0x24\<close> on, a read returns \<open>0xFFFFFFFF\<close> and a write leaves the register file,
  hence each of the nine registers, as it was.
\<close>

theorem reg_write_read_roundtrip:
  assumes "rf_wf rf"
  shows "(\<forall>offset val. offset < 0x24 \<and> offset mod 4 = 0 \<longrightarrow>
            reg_read (reg_write rf offset val) offset = val)
       \<and> (\<forall>offset val. offset \<ge> 0x24 \<longrightarrow>
            reg_read rf offset = 0xFFFFFFFF
            \<and> reg_write rf offset val = rf
            \<and> (\<forall>offset'. offset' < 0x24 \<longrightarrow>
                  reg_read (reg_write rf offset val) offset' = reg_read rf offset'))"
proof -
  have a: "reg_read (reg_write rf offset val) offset = val" if "offset < 0x24" for offset val
    using that assms by (simp add: reg_read_reg_write REGISTER_FILE_SIZE_def)
  have b: "reg_read rf offset = 0xFFFFFFFF" "reg_write rf offset val = rf"
    if "offset \<ge> 0x24" for offset val
    using that by (simp_all add: reg_read_def reg_write_def REGISTER_FILE_SIZE_def)
  show ?thesis using a b by simp
qed

theorem reg_write_read_roundtrip_witness:
  "rf_wf (reg_init [])
   \<and> reg_read (reg_write (reg_init []) 0x14 0x12345678) 0x14 = 0x12345678
   \<and> reg_read (reg_init []) 0x24 = 0xFFFFFFFF
   \<and> reg_write (reg_init []) 0x24 7 = reg_init []
   \<and> reg_read (reg_write (reg_init []) 0x24 7) 0x20 = reg_read (reg_init []) 0x20"
  using reg_write_read_roundtrip [of "reg_init []"]
  by (simp add: rf_wf_reg_init)

text \<open>
  Claim C9, as stated, fails: clearing the bits of a mask and then setting them does not
  bring back the bits the word held within the mask. On a zeroed register file, with
  offset 0 and mask 1, bit 0 is in the mask, was 0 before and is 1 afterwards.
\<close>

theorem reg_clear_set_bits_counterexample:
  "bit (1 :: u32) 0
   \<and> bit (reg_read (reg_set_bits (reg_clear_bits (reg_init []) 0 1) 0 1) 0) 0
       \<noteq> bit (reg_read (reg_init []) 0) 0"
  by (simp add: reg_read_reg_set_bits reg_read_reg_clear_bits rf_wf_intros
      reg_read_reg_init REGISTER_FILE_SIZE_def)

text \<open>
  Claim C9, amended. For every in-range offset and every mask \<open>m\<close>, after
  \<open>reg_clear_bits(o, m); reg_set_bits(o, m)\<close> the word at \<open>o\<close> is the original word
  with every bit of \<open>m\<close> set: the bits outside \<open>m\<close> are as before, the bits within
  \<open>m\<close> are 1, and the register file is the one \<open>reg_set_bits(o, m)\<close> alone gives.
\<close>

theorem reg_clear_set_bits:
  assumes "rf_wf rf" and "offset < 0x24"
  shows "reg_read (reg_set_bits (reg_clear_bits rf offset m) offset m) offset
           = reg_read rf offset OR m
       \<and> (\<forall>n. \<not> bit m n \<longrightarrow>
             bit (reg_read (reg_set_bits (reg_clear_bits rf offset m) offset m) offset) n
               = bit (reg_read rf offset) n)
       \<and> (\<forall>n. bit m n \<longrightarrow>
             bit (reg_read (reg_set_bits (reg_clear_bits rf offset m) offset m) offset) n)
       \<and> reg_set_bits (reg_clear_bits rf offset m) offset m = reg_set_bits rf offset m"
proof -
  have rd: "reg_read (reg_set_bits (reg_clear_bits rf offset m) offset m) offset
              = reg_read rf offset OR m"
    using assms
    by (simp add: reg_read_reg_set_bits reg_read_reg_clear_bits rf_wf_intros
        REGISTER_FILE_SIZE_def clear_then_set_word)
  have lt: "offset < REGISTER_FILE_SIZE"
    using assms(2) by (simp add: REGISTER_FILE_SIZE_def)
  have eq: "reg_set_bits (reg_clear_bits rf offset m) offset m = reg_set_bits rf offset m"
    using reg_index_in_range [OF assms(1) lt] lt
    by (simp add: reg_set_bits_def reg_clear_bits_def reg_in_range clear_then_set_word)
  have outside: "\<forall>n. \<not> bit m n \<longrightarrow>
      bit (reg_read (reg_set_bits (reg_clear_bits rf offset m) offset m) offset) n
        = bit (reg_read rf offset) n"
    by (simp add: rd bit_or_iff)
  have inside: "\<forall>n. bit m n \<longrightarrow>
      bit (reg_read (reg_set_bits (reg_clear_bits rf offset m) offset m) offset) n"
    by (simp add: rd bit_or_iff)
  from rd outside inside eq show ?thesis
    by (intro conjI)
qed

theorem reg_clear_set_bits_witness:
  "rf_wf (reg_write (reg_init []) 0x08 0xF0) \<and> (0x08 :: u32) < 0x24
   \<and> reg_read (reg_set_bits (reg_clear_bits (reg_write (reg_init []) 0x08 0xF0) 0x08 0x3C)
        0x08 0x3C) 0x08 = 0xFC"
proof -
  have wf: "rf_wf (reg_write (reg_init []) 0x08 0xF0)"
    by (simp add: rf_wf_intros)
  have rd: "reg_read (reg_write (reg_init []) 0x08 0xF0) 0x08 = 0xF0"
    by (simp add: reg_read_reg_write rf_wf_intros REGISTER_FILE_SIZE_def)
  have lt: "(0x08 :: u32) < 0x24"
    by simp
  note reg_clear_set_bits [OF wf lt, of "0x3C", THEN conjunct1]
  then show ?thesis
    using wf rd by simp
qed

text \<open>
  Claim C10. For every offset below \<open>0x24\<close> that is not a multiple of 4, the bounds
  check passes and the word accessed is the one at index \<open>offset / 4\<close>, the word
  containing the offset: each of the four operations does what it does at the aligned
  offset \<open>offset - offset % 4\<close>, a write is read back at both offsets, and the offsets
  \<open>0x21\<close> to \<open>0x23\<close> access the last word, index 8.
\<close>

theorem reg_unaligned_offset:
  assumes "rf_wf rf" and "offset < 0x24" and "offset mod 4 \<noteq> 0"
  shows "reg_read rf offset = rf ! (unat offset div 4)
       \<and> reg_read rf offset = reg_read rf (offset - offset mod 4)
       \<and> reg_write rf offset v = reg_write rf (offset - offset mod 4) v
       \<and> reg_set_bits rf offset v = reg_set_bits rf (offset - offset mod 4) v
       \<and> reg_clear_bits rf offset v = reg_clear_bits rf (offset - offset mod 4) v
       \<and> reg_read (reg_write rf offset v) offset = v
       \<and> reg_read (reg_write rf offset v) (offset - offset mod 4) = v
       \<and> (0x21 \<le> offset \<longrightarrow>
             reg_read rf offset = rf ! 8 \<and> reg_write rf offset v = rf[8 := v])"
proof -
  have lt: "offset < REGISTER_FILE_SIZE"
    using assms(2) by (simp add: REGISTER_FILE_SIZE_def)
  note al = word_align_less [OF lt]
  have ops: "reg_read rf offset = reg_read rf (offset - offset mod 4)"
    "reg_write rf offset v = reg_write rf (offset - offset mod 4) v"
    "reg_set_bits rf offset v = reg_set_bits rf (offset - offset mod 4) v"
    "reg_clear_bits rf offset v = reg_clear_bits rf (offset - offset mod 4) v"
    using lt al
    by (simp_all add: reg_read_def reg_write_def reg_set_bits_def reg_clear_bits_def
        word_align_div reg_in_range)
  have idx: "reg_read rf offset = rf ! (unat offset div 4)"
    using lt by (simp add: reg_read_def reg_in_range unat_div)
  have rdb: "reg_read (reg_write rf offset v) offset = v"
    "reg_read (reg_write rf offset v) (offset - offset mod 4) = v"
    using assms(1) lt al by (simp_all add: reg_read_reg_write word_align_div)
  have last: "unat offset div 4 = 8" if "0x21 \<le> offset"
  proof -
    from that have "33 \<le> unat offset" by (simp add: word_le_nat_alt)
    moreover from assms(2) have "unat offset < 36" by (simp add: word_less_nat_alt)
    ultimately show ?thesis by presburger
  qed
  have top: "reg_read rf offset = rf ! 8 \<and> reg_write rf offset v = rf[8 := v]"
    if "0x21 \<le> offset"
    using last [OF that] lt by (simp add: reg_read_def reg_write_def reg_in_range unat_div)
  show ?thesis
    using ops idx rdb top by simp
qed

theorem reg_unaligned_offset_witness:
  "rf_wf (reg_write (reg_init []) 0x20 0xDEADBEEF) \<and> (0x22 :: u32) < 0x24
   \<and> (0x22 :: u32) mod 4 \<noteq> 0 \<and> (0x21 :: u32) \<le> 0x22
   \<and> reg_read (reg_write (reg_init []) 0x20 0xDEADBEEF) 0x22 = 0xDEADBEEF
   \<and> reg_read (reg_write (reg_write (reg_init []) 0x20 0xDEADBEEF) 0x22 5) 0x20 = 5"
proof -
  have wf: "rf_wf (reg_write (reg_init []) 0x20 0xDEADBEEF)"
    by (simp add: rf_wf_intros)
  have rd: "reg_read (reg_write (reg_init []) 0x20 0xDEADBEEF) 0x20 = 0xDEADBEEF"
    by (simp add: reg_read_reg_write rf_wf_intros REGISTER_FILE_SIZE_def)
  have lt: "(0x22 :: u32) < 0x24" and un: "(0x22 :: u32) mod 4 \<noteq> 0"
    by simp_all
  note th = reg_unaligned_offset [OF wf lt un, of 5]
  note rd_aligned = th [THEN conjunct2, THEN conjunct1]
  note wr_aligned = th [THEN conjunct2, THEN conjunct2, THEN conjunct2, THEN conjunct2,
      THEN conjunct2, THEN conjunct2, THEN conjunct1]
  from rd_aligned wr_aligned show ?thesis
    using wf rd by simp
qed

section \<open>Motor controller: one tick of the ramp\<close>

lemmas motor_regs_simps =
  reg_read_reg_write reg_read_reg_set_bits reg_read_reg_clear_bits rf_wf_intros
  REGISTER_FILE_SIZE_def REG_MOTOR_CTRL_def REG_MOTOR_STATUS_def REG_MOTOR_SPEED_def
  REG_MOTOR_POSITION_def

lemma status_or_running:
  "(w OR MOTOR_STATUS_RUNNING)
     AND (MOTOR_STATUS_FAULT OR MOTOR_STATUS_STALL OR MOTOR_STATUS_OVERHEAT)
   = w AND (MOTOR_STATUS_FAULT OR MOTOR_STATUS_STALL OR MOTOR_STATUS_OVERHEAT)"
  by (simp add: reg_bits bit.conj_disj_distrib2)

lemma motor_update_starting_step:
  assumes wf: "rf_wf (mc_regs mc)" and st: "mc_state mc = MOTOR_STATE_STARTING"
    and nf: "motor_no_fault mc" and t: "unat (target_speed mc) \<le> 10000"
    and c: "unat (current_speed mc) \<le> unat (target_speed mc)"
  shows "rf_wf (mc_regs (snd (motor_update mc)))"
    and "motor_no_fault (snd (motor_update mc))"
    and "target_speed (snd (motor_update mc)) = target_speed mc"
    and "unat (current_speed (snd (motor_update mc)))
           = min (unat (current_speed mc) + 500) (unat (target_speed mc))"
    and "mc_state (snd (motor_update mc))
           = (if unat (target_speed mc) \<le> unat (current_speed mc) + 500
              then MOTOR_STATE_RUNNING else MOTOR_STATE_STARTING)"
proof -
  have add: "unat (current_speed mc + 500) = unat (current_speed mc) + 500"
    using t c by (simp add: unat_add_lem [THEN iffD1])
  have upd: "snd (motor_update mc) = motor_update_starting mc"
    using nf st by (simp add: motor_update_def motor_no_fault_def)
  show "rf_wf (mc_regs (snd (motor_update mc)))"
    using wf by (simp add: upd motor_update_starting_def Let_def rf_wf_intros)
  show "motor_no_fault (snd (motor_update mc))"
    using wf nf
    by (simp add: upd motor_update_starting_def motor_no_fault_def Let_def
        motor_regs_simps status_or_running)
  show "target_speed (snd (motor_update mc)) = target_speed mc"
    by (simp add: upd motor_update_starting_def Let_def)
  show "unat (current_speed (snd (motor_update mc)))
          = min (unat (current_speed mc) + 500) (unat (target_speed mc))"
    using c add
    by (auto simp add: upd motor_update_starting_def Let_def SPEED_RAMP_RATE_def
        word_less_nat_alt word_le_nat_alt)
  show "mc_state (snd (motor_update mc))
          = (if unat (target_speed mc) \<le> unat (current_speed mc) + 500
             then MOTOR_STATE_RUNNING else MOTOR_STATE_STARTING)"
    using c add st
    by (auto simp add: upd motor_update_starting_def Let_def SPEED_RAMP_RATE_def
        word_less_nat_alt word_le_nat_alt)
qed

lemma motor_update_running_at_target:
  assumes wf: "rf_wf (mc_regs mc)" and st: "mc_state mc = MOTOR_STATE_RUNNING"
    and nf: "motor_no_fault mc" and c: "current_speed mc = target_speed mc"
  shows "rf_wf (mc_regs (snd (motor_update mc)))"
    and "motor_no_fault (snd (motor_update mc))"
    and "target_speed (snd (motor_update mc)) = target_speed mc"
    and "current_speed (snd (motor_update mc)) = target_speed mc"
    and "mc_state (snd (motor_update mc)) = MOTOR_STATE_RUNNING"
proof -
  have upd: "snd (motor_update mc) = motor_update_running mc"
    using nf st by (simp add: motor_update_def motor_no_fault_def)
  show "rf_wf (mc_regs (snd (motor_update mc)))"
    using wf by (simp add: upd motor_update_running_def Let_def rf_wf_intros)
  show "motor_no_fault (snd (motor_update mc))"
    using wf nf
    by (simp add: upd motor_update_running_def motor_no_fault_def Let_def motor_regs_simps)
  show "target_speed (snd (motor_update mc)) = target_speed mc"
    by (simp add: upd motor_update_running_def Let_def)
  show "current_speed (snd (motor_update mc)) = target_speed mc"
    using c by (simp add: upd motor_update_running_def Let_def)
  show "mc_state (snd (motor_update mc)) = MOTOR_STATE_RUNNING"
    using st by (simp add: upd motor_update_running_def Let_def)
qed

text \<open>The ramp in closed form: the state after \<open>k\<close> ticks from a controller that is
  starting at speed 0.\<close>

lemma motor_ramp_closed_form:
  assumes wf: "rf_wf (mc_regs mc)" and st: "mc_state mc = MOTOR_STATE_STARTING"
    and nf: "motor_no_fault mc" and t: "unat (target_speed mc) \<le> 10000"
    and c: "current_speed mc = 0"
  shows "rf_wf (mc_regs (motor_ticks k mc)) \<and> motor_no_fault (motor_ticks k mc)
    \<and> target_speed (motor_ticks k mc) = target_speed mc
    \<and> unat (current_speed (motor_ticks k mc)) = min (500 * k) (unat (target_speed mc))
    \<and> mc_state (motor_ticks k mc) =
        (if 1 \<le> k \<and> unat (target_speed mc) \<le> 500 * k
         then MOTOR_STATE_RUNNING else MOTOR_STATE_STARTING)"
proof (induction k)
  case 0
  then show ?case using assms by simp
next
  case (Suc k)
  let ?m = "motor_ticks k mc"
  show ?case
  proof (cases "mc_state ?m = MOTOR_STATE_STARTING")
    case True
    have c': "unat (current_speed ?m) \<le> unat (target_speed ?m)"
      using Suc by simp
    have t': "unat (target_speed ?m) \<le> 10000"
      using Suc t by simp
    from True Suc have k: "k = 0 \<or> 500 * k < unat (target_speed mc)"
      by (auto split: if_splits)
    show ?thesis
      using motor_update_starting_step [OF _ True _ t' c'] Suc k
      by (auto simp: min_def)
  next
    case False
    with Suc have run: "mc_state ?m = MOTOR_STATE_RUNNING"
      and k: "unat (target_speed mc) \<le> 500 * k"
      by (auto split: if_splits)
    from Suc k have "unat (current_speed ?m) = unat (target_speed ?m)"
      by (simp add: min_def)
    then have c': "current_speed ?m = target_speed ?m"
      by (simp add: word_unat_eq_iff)
    show ?thesis
      using motor_update_running_at_target [OF _ run _ c'] Suc k
      by (auto simp: min_def)
  qed
qed

lemma motor_start_from_idle:
  assumes "mc_state mc = MOTOR_STATE_IDLE" and "t \<le> 10000"
  shows "motor_start mc t dir =
     (0, mc\<lparr>target_speed := t, direction := dir, mc_state := MOTOR_STATE_STARTING,
            mc_regs := reg_write (mc_regs mc) REG_MOTOR_CTRL
              (if dir = MOTOR_DIR_CW then MOTOR_CTRL_ENABLE OR MOTOR_CTRL_DIR_CW
               else MOTOR_CTRL_ENABLE)\<rparr>)"
  using assms by (simp add: motor_start_def MAX_SPEED_def Let_def not_less [symmetric])

section \<open>Motor controller: claims\<close>

text \<open>
  Claim C2. For every target speed \<open>t \<le> 10000\<close>, after \<open>motor_start(t, dir)\<close> from
  the idle state with current speed 0 and no fault bit set in MOTOR_STATUS, some number
  of \<open>motor_update\<close> calls brings the current speed to \<open>t\<close> with the state running;
  indeed every number of calls from \<open>max 1 \<lceil>t / 500\<rceil>\<close> on does. During the ramp
  the current speed after \<open>k\<close> calls is \<open>500 * k\<close> clamped at \<open>t\<close>, so it never
  decreases.
\<close>

theorem motor_start_ramps_to_target:
  assumes wf: "rf_wf (mc_regs mc)" and idle: "mc_state mc = MOTOR_STATE_IDLE"
    and zero: "current_speed mc = 0" and nf: "motor_no_fault mc" and t: "t \<le> 10000"
  shows "fst (motor_start mc t dir) = 0
    \<and> mc_state (snd (motor_start mc t dir)) = MOTOR_STATE_STARTING
    \<and> (\<exists>n. current_speed (motor_ticks n (snd (motor_start mc t dir))) = t
            \<and> mc_state (motor_ticks n (snd (motor_start mc t dir))) = MOTOR_STATE_RUNNING)
    \<and> (\<forall>n. max 1 ((unat t + 499) div 500) \<le> n \<longrightarrow>
            current_speed (motor_ticks n (snd (motor_start mc t dir))) = t
            \<and> mc_state (motor_ticks n (snd (motor_start mc t dir))) = MOTOR_STATE_RUNNING)
    \<and> (\<forall>k. unat (current_speed (motor_ticks k (snd (motor_start mc t dir))))
              = min (500 * k) (unat t))
    \<and> (\<forall>k. current_speed (motor_ticks k (snd (motor_start mc t dir)))
              \<le> current_speed (motor_ticks (Suc k) (snd (motor_start mc t dir))))"
proof -
  let ?s = "snd (motor_start mc t dir)"
  note start = motor_start_from_idle [OF idle t, of dir]
  have s_wf: "rf_wf (mc_regs ?s)"
    using wf by (simp add: start rf_wf_intros)
  have s_st: "mc_state ?s = MOTOR_STATE_STARTING"
    by (simp add: start)
  have s_nf: "motor_no_fault ?s"
    using wf nf by (simp add: start motor_no_fault_def motor_regs_simps)
  have s_t: "target_speed ?s = t"
    by (simp add: start)
  have s_t': "unat (target_speed ?s) \<le> 10000"
    using t by (simp add: s_t word_le_nat_alt)
  have s_c: "current_speed ?s = 0"
    using zero by (simp add: start)
  note ramp = motor_ramp_closed_form [OF s_wf s_st s_nf s_t' s_c, unfolded s_t]
  have speed: "unat (current_speed (motor_ticks k ?s)) = min (500 * k) (unat t)" for k
    using ramp [of k] by simp
  have late: "current_speed (motor_ticks n ?s) = t
      \<and> mc_state (motor_ticks n ?s) = MOTOR_STATE_RUNNING"
    if "max 1 ((unat t + 499) div 500) \<le> n" for n
  proof -
    from that have n: "1 \<le> n" "unat t \<le> 500 * n"
      by (simp, simp, arith)
    then have "unat (current_speed (motor_ticks n ?s)) = unat t"
      using speed [of n] by simp
    then have "current_speed (motor_ticks n ?s) = t"
      by (simp add: word_unat_eq_iff)
    moreover have "mc_state (motor_ticks n ?s) = MOTOR_STATE_RUNNING"
      using ramp [of n] n by simp
    ultimately show ?thesis by simp
  qed
  have mono: "current_speed (motor_ticks k ?s) \<le> current_speed (motor_ticks (Suc k) ?s)"
    for k
    unfolding word_le_nat_alt speed by simp
  have ex: "\<exists>n. current_speed (motor_ticks n ?s) = t
      \<and> mc_state (motor_ticks n ?s) = MOTOR_STATE_RUNNING"
    using late [of "max 1 ((unat t + 499) div 500)"] by blast
  show ?thesis
    using start s_st ex late speed mono by simp
qed

text \<open>Scenario 2 of the specification as an instance: start at 5000 clockwise after
  initialisation, twenty ticks.\<close>

theorem motor_start_ramps_to_target_witness:
  "rf_wf (mc_regs (snd (motor_init (reg_init []))))
   \<and> mc_state (snd (motor_init (reg_init []))) = MOTOR_STATE_IDLE
   \<and> current_speed (snd (motor_init (reg_init []))) = 0
   \<and> motor_no_fault (snd (motor_init (reg_init [])))
   \<and> (5000 :: u32) \<le> 10000
   \<and> max 1 ((unat (5000 :: u32) + 499) div 500) \<le> (20 :: nat)
   \<and> current_speed (motor_ticks 20
        (snd (motor_start (snd (motor_init (reg_init []))) 5000 MOTOR_DIR_CW))) = 5000
   \<and> mc_state (motor_ticks 20
        (snd (motor_start (snd (motor_init (reg_init []))) 5000 MOTOR_DIR_CW)))
       = MOTOR_STATE_RUNNING"
proof -
  have init: "rf_wf (mc_regs (snd (motor_init (reg_init []))))
      \<and> mc_state (snd (motor_init (reg_init []))) = MOTOR_STATE_IDLE
      \<and> current_speed (snd (motor_init (reg_init []))) = 0
      \<and> motor_no_fault (snd (motor_init (reg_init [])))"
    by code_simp
  have t: "(5000 :: u32) \<le> 10000"
    by simp
  have n: "max 1 ((unat (5000 :: u32) + 499) div 500) \<le> (20 :: nat)"
    by simp
  from init have wf: "rf_wf (mc_regs (snd (motor_init (reg_init []))))"
    and idle: "mc_state (snd (motor_init (reg_init []))) = MOTOR_STATE_IDLE"
    and zero: "current_speed (snd (motor_init (reg_init []))) = 0"
    and nf: "motor_no_fault (snd (motor_init (reg_init [])))"
    by simp_all
  note th = motor_start_ramps_to_target [OF wf idle zero nf t, of MOTOR_DIR_CW]
  note late = th [THEN conjunct2, THEN conjunct2, THEN conjunct2, THEN conjunct1,
      rule_format, OF n]
  from init t n late show ?thesis
    by (intro conjI) simp_all
qed

text \<open>
  Claim C3 is not what \<open>motor_reset\<close> does: it never writes MOTOR_POSITION (nor the
  \<open>position\<close> field). In the scenario of \<open>test_motor_position_update\<close>, start at 1000
  clockwise after initialisation and twenty ticks, the register reads 180 after
  \<open>motor_reset\<close>, not 0. The test goes on to start counter-clockwise for twenty more
  ticks and asserts a negative position; the position is then exactly 0, so the
  repository's own test expects the reset to clear the position.
\<close>

theorem motor_reset_keeps_position:
  "reg_read (mc_regs (snd (motor_reset (motor_ticks 20
       (snd (motor_start (snd (motor_init (reg_init []))) 1000 MOTOR_DIR_CW))))))
     REG_MOTOR_POSITION = 180
   \<and> position (snd (motor_reset (motor_ticks 20
       (snd (motor_start (snd (motor_init (reg_init []))) 1000 MOTOR_DIR_CW))))) = 180
   \<and> sint (position (motor_ticks 20 (snd (motor_start (snd (motor_reset (motor_ticks 20
       (snd (motor_start (snd (motor_init (reg_init []))) 1000 MOTOR_DIR_CW)))))
       1000 MOTOR_DIR_CCW)))) = 0"
  by code_simp

text \<open>What \<open>motor_reset\<close> does on any controller: everything the claim lists except
  the position register, which keeps its value.\<close>

lemma motor_reset_effect:
  assumes "rf_wf (mc_regs mc)"
  shows "fst (motor_reset mc) = 0"
    and "mc_state (snd (motor_reset mc)) = MOTOR_STATE_IDLE"
    and "fault_code (snd (motor_reset mc)) = MOTOR_FAULT_NONE"
    and "current_speed (snd (motor_reset mc)) = 0"
    and "target_speed (snd (motor_reset mc)) = 0"
    and "reg_read (mc_regs (snd (motor_reset mc))) REG_MOTOR_CTRL = 0"
    and "reg_read (mc_regs (snd (motor_reset mc))) REG_MOTOR_STATUS = 0"
    and "reg_read (mc_regs (snd (motor_reset mc))) REG_MOTOR_SPEED = 0"
    and "reg_read (mc_regs (snd (motor_reset mc))) REG_MOTOR_POSITION
           = reg_read (mc_regs mc) REG_MOTOR_POSITION"
    and "position (snd (motor_reset mc)) = position mc"
  using assms
  by (simp_all add: motor_reset_def Let_def motor_regs_simps MOTOR_CTRL_RESET_def)

text \<open>
  Claim C4, as stated, fails: \<open>motor_stop\<close> (and \<open>motor_set_speed\<close>) lower the target
  under the current speed, which then ramps down over the following ticks. After
  initialisation, a start at 5000, one tick and a stop, the current speed is 500 and the
  target is 0.
\<close>

theorem motor_speed_invariant_counterexample:
  "\<not> (current_speed (motor_run (snd (motor_init (reg_init [])))
          [Op_start 5000 MOTOR_DIR_CW, Op_update, Op_stop])
        \<le> target_speed (motor_run (snd (motor_init (reg_init [])))
            [Op_start 5000 MOTOR_DIR_CW, Op_update, Op_stop])
      \<and> target_speed (motor_run (snd (motor_init (reg_init [])))
            [Op_start 5000 MOTOR_DIR_CW, Op_update, Op_stop]) \<le> 10000)"
  by code_simp

text \<open>Nor is the current speed bounded by 10000: in the running state the ramp-down
  subtracts 500 from an unsigned speed that may be smaller, which wraps around.\<close>

lemma motor_ramp_down_wraps:
  "current_speed (motor_run (snd (motor_init (reg_init [])))
     [Op_start 300 MOTOR_DIR_CW, Op_update, Op_set_speed 100, Op_update]) = 4294967096"
  by code_simp

lemma motor_update_target_speed: "target_speed (snd (motor_update mc)) = target_speed mc"
  by (simp add: motor_update_def motor_update_starting_def motor_update_running_def
      motor_update_stopping_def Let_def split: motor_state.split)

lemma motor_apply_target_bound:
  assumes "target_speed mc \<le> MAX_SPEED"
  shows "target_speed (motor_apply mc op) \<le> MAX_SPEED"
proof (cases op)
  case (Op_start speed dir)
  then show ?thesis
    using assms by (auto simp add: motor_start_def Let_def not_less)
next
  case Op_stop
  then show ?thesis
    using assms by (simp add: motor_stop_def)
next
  case Op_brake
  then show ?thesis
    by (simp add: motor_brake_def Let_def)
next
  case (Op_set_speed speed)
  then show ?thesis
    using assms by (auto simp add: motor_set_speed_def not_less)
next
  case Op_reset
  then show ?thesis
    by (simp add: motor_reset_def Let_def)
next
  case Op_update
  then show ?thesis
    using assms by (simp add: motor_update_target_speed)
next
  case (Op_inject_fault fault)
  then show ?thesis
    using assms by (simp add: motor_inject_fault_def Let_def split: motor_fault.split)
next
  case Op_clear_fault
  then show ?thesis
    using assms by (simp add: motor_clear_fault_def)
qed

lemma motor_run_target_bound:
  assumes "target_speed mc \<le> MAX_SPEED"
  shows "target_speed (motor_run mc ops) \<le> MAX_SPEED"
  using assms unfolding motor_run_def
  by (induction ops arbitrary: mc) (simp_all add: motor_apply_target_bound)

text \<open>
  Claim C4, amended. In every motor state reached from \<open>motor_init\<close> by any sequence of
  motor operations (start, stop, brake, set_speed, reset, update, inject_fault,
  clear_fault, with any arguments), the target speed is at most 10000. The current
  speed is not bounded by the target: it is above it while the motor ramps down.
\<close>

theorem motor_target_speed_bounded:
  "target_speed (motor_run (snd (motor_init rf)) ops) \<le> 10000"
  using motor_run_target_bound [of "snd (motor_init rf)" ops]
  by (simp add: motor_init_def MAX_SPEED_def Let_def)

section \<open>Sensor array: the ring buffer\<close>

text \<open>The ring holds \<open>k\<close> samples when the head is \<open>k\<close> slots past the tail,
  modulo the capacity. A push finds room while \<open>k + 1\<close> is below the capacity and
  finds the ring full when \<open>k + 1\<close> is the capacity.\<close>

lemma ring_next_unat:
  "unat (of_nat (n mod SENSOR_BUFFER_SIZE) :: u8) = n mod SENSOR_BUFFER_SIZE"
proof -
  have "n mod SENSOR_BUFFER_SIZE < 16"
    by (simp add: SENSOR_BUFFER_SIZE_def)
  then show ?thesis
    by (simp add: unat_of_nat)
qed

lemma ring_next_eq_tail:
  "(of_nat (n mod SENSOR_BUFFER_SIZE) :: u8) = t \<longleftrightarrow> n mod SENSOR_BUFFER_SIZE = unat t"
  by (simp only: word_unat_eq_iff ring_next_unat)

lemma ring_step:
  "((t + k) mod SENSOR_BUFFER_SIZE + 1) mod SENSOR_BUFFER_SIZE = (t + (k + 1)) mod SENSOR_BUFFER_SIZE"
  by (simp add: mod_Suc_eq)

lemma ring_wrap:
  assumes "t < SENSOR_BUFFER_SIZE" and "k < SENSOR_BUFFER_SIZE"
  shows "(t + (k + 1)) mod SENSOR_BUFFER_SIZE = t \<longleftrightarrow> k + 1 = SENSOR_BUFFER_SIZE"
proof (cases "t + (k + 1) < SENSOR_BUFFER_SIZE")
  case True
  then show ?thesis by simp
next
  case False
  then have "(t + (k + 1)) mod SENSOR_BUFFER_SIZE = (t + (k + 1) - SENSOR_BUFFER_SIZE) mod SENSOR_BUFFER_SIZE"
    by (simp add: le_mod_geq)
  also have "\<dots> = t + (k + 1) - SENSOR_BUFFER_SIZE"
    using assms by simp
  finally show ?thesis
    using False by auto
qed

lemma or_and_same: "(w OR m) AND m = (m :: u32)"
  by (auto simp add: bit_eq_iff bit_simps)

lemma push_when_room:
  assumes wf: "sa_wf sa"
    and hd: "unat (buffer_head sa) = (unat (buffer_tail sa) + k) mod SENSOR_BUFFER_SIZE"
    and room: "k + 1 < SENSOR_BUFFER_SIZE"
  shows "sensor_buffer_push sa v =
     (0, sa\<lparr>buffer := (buffer sa)[unat (buffer_head sa) := v],
            buffer_head := of_nat ((unat (buffer_tail sa) + (k + 1)) mod SENSOR_BUFFER_SIZE)\<rparr>)"
proof -
  have t: "unat (buffer_tail sa) < SENSOR_BUFFER_SIZE"
    using wf by (simp add: sa_wf_def)
  have nxt: "(unat (buffer_head sa) + 1) mod SENSOR_BUFFER_SIZE
      = (unat (buffer_tail sa) + (k + 1)) mod SENSOR_BUFFER_SIZE"
    unfolding hd by (rule ring_step)
  have kl: "k < SENSOR_BUFFER_SIZE"
    using room by simp
  have "(unat (buffer_tail sa) + (k + 1)) mod SENSOR_BUFFER_SIZE \<noteq> unat (buffer_tail sa)"
    using ring_wrap [OF t kl] room by simp
  then show ?thesis
    unfolding sensor_buffer_push_def Let_def nxt ring_next_eq_tail by simp
qed

lemma push_when_full:
  assumes wf: "sa_wf sa"
    and hd: "unat (buffer_head sa) = (unat (buffer_tail sa) + k) mod SENSOR_BUFFER_SIZE"
    and full: "k + 1 = SENSOR_BUFFER_SIZE"
  shows "sensor_buffer_push sa v =
     (- 2, sa\<lparr>sa_regs := reg_set_bits (sa_regs sa) REG_SENSOR_STATUS
                              SENSOR_STATUS_OVERFLOW\<rparr>)"
proof -
  have t: "unat (buffer_tail sa) < SENSOR_BUFFER_SIZE"
    using wf by (simp add: sa_wf_def)
  have nxt: "(unat (buffer_head sa) + 1) mod SENSOR_BUFFER_SIZE
      = (unat (buffer_tail sa) + (k + 1)) mod SENSOR_BUFFER_SIZE"
    unfolding hd by (rule ring_step)
  have kl: "k < SENSOR_BUFFER_SIZE"
    using full by simp
  have "(unat (buffer_tail sa) + (k + 1)) mod SENSOR_BUFFER_SIZE = unat (buffer_tail sa)"
    by (rule ring_wrap [OF t kl, THEN iffD2, OF full])
  then show ?thesis
    unfolding sensor_buffer_push_def Let_def nxt ring_next_eq_tail by simp
qed

lemma push_all_room:
  assumes "sa_wf sa"
    and "unat (buffer_head sa) = (unat (buffer_tail sa) + k) mod SENSOR_BUFFER_SIZE"
    and "k + length vs < SENSOR_BUFFER_SIZE"
  shows "fst (push_all sa vs) = replicate (length vs) 0
    \<and> sa_wf (snd (push_all sa vs))
    \<and> buffer_tail (snd (push_all sa vs)) = buffer_tail sa
    \<and> sa_regs (snd (push_all sa vs)) = sa_regs sa
    \<and> unat (buffer_head (snd (push_all sa vs)))
        = (unat (buffer_tail sa) + (k + length vs)) mod SENSOR_BUFFER_SIZE"
  using assms
proof (induction vs arbitrary: sa k)
  case Nil
  then show ?case by simp
next
  case (Cons v vs)
  let ?sa1 = "sa\<lparr>buffer := (buffer sa)[unat (buffer_head sa) := v],
            buffer_head := of_nat ((unat (buffer_tail sa) + (k + 1)) mod SENSOR_BUFFER_SIZE)\<rparr>"
  from Cons.prems(3) have room: "k + 1 < SENSOR_BUFFER_SIZE"
    by simp
  have p: "sensor_buffer_push sa v = (0, ?sa1)"
    by (rule push_when_room [OF Cons.prems(1,2) room])
  have wf1: "sa_wf ?sa1"
    using Cons.prems(1) by (simp add: sa_wf_def ring_next_unat)
  have hd1: "unat (buffer_head ?sa1) = (unat (buffer_tail ?sa1) + (k + 1)) mod SENSOR_BUFFER_SIZE"
    by (simp add: ring_next_unat)
  have len: "(k + 1) + length vs < SENSOR_BUFFER_SIZE"
    using Cons.prems(3) by simp
  from Cons.IH [OF wf1 hd1 len] show ?case
    by (simp add: p split_beta)
qed

section \<open>Sensor array: enable, trigger, update\<close>

lemma sensor_indices: "[0..<SENSOR_COUNT] = [0, 1, 2, 3]"
  by (simp add: SENSOR_COUNT_def upt_rec)

lemma four_sensors:
  assumes "length (xs :: sensor list) = SENSOR_COUNT"
  obtains a b c d where "xs = [a, b, c, d]"
  using assms
  by (auto simp: SENSOR_COUNT_def numeral_eq_Suc length_Suc_conv)

lemma sensors_sensor_buffer_push:
  "sensors (snd (sensor_buffer_push sa v)) = sensors sa"
  "continuous_mode (snd (sensor_buffer_push sa v)) = continuous_mode sa"
  by (simp_all add: sensor_buffer_push_def Let_def)

lemma update_sensor_channel:
  "sensors (update_sensor sa i) = (sensors sa)[i := sensor_sampled (sensors sa ! i)]"
  "continuous_mode (update_sensor sa i) = continuous_mode sa"
  by (simp_all add: update_sensor_def sensor_sampled_def Let_def sensors_sensor_buffer_push)

lemma foldl_update_sensor:
  "sensors (foldl update_sensor sa is)
     = foldl (\<lambda>xs i. xs[i := sensor_sampled (xs ! i)]) (sensors sa) is
   \<and> continuous_mode (foldl update_sensor sa is) = continuous_mode sa"
  by (induction "is" arbitrary: sa) (simp_all add: update_sensor_channel)

lemma update_loop_map:
  assumes "length (sensors sa) = SENSOR_COUNT"
  shows "sensors (foldl update_sensor sa [0..<SENSOR_COUNT]) = map sensor_sampled (sensors sa)"
proof -
  from assms obtain a b c d where xs: "sensors sa = [a, b, c, d]"
    by (rule four_sensors)
  have "sensors (foldl update_sensor sa [0..<SENSOR_COUNT])
      = foldl (\<lambda>xs i. xs[i := sensor_sampled (xs ! i)]) (sensors sa) [0..<SENSOR_COUNT]"
    by (rule foldl_update_sensor [THEN conjunct1])
  also have "\<dots> = map sensor_sampled (sensors sa)"
    by (simp add: xs sensor_indices)
  finally show ?thesis .
qed

lemma trigger_loop_map:
  assumes "length xs = SENSOR_COUNT"
  shows "foldl trigger_sensor xs [0..<SENSOR_COUNT] = map sensor_triggered xs"
proof -
  from assms obtain a b c d where "xs = [a, b, c, d]"
    by (rule four_sensors)
  then show ?thesis
    by (simp add: sensor_indices trigger_sensor_def sensor_triggered_def)
qed

lemma sensors_sensor_array_trigger:
  assumes "length (sensors sa) = SENSOR_COUNT"
  shows "sensors (snd (sensor_array_trigger sa)) =
     (if fst (sensor_array_trigger sa) = 0 then map sensor_triggered (sensors sa)
      else sensors sa)"
  using trigger_loop_map [OF assms]
  by (simp add: sensor_array_trigger_def Let_def)

lemma sensors_sensor_array_update:
  assumes "length (sensors sa) = SENSOR_COUNT"
  shows "\<exists>retrigger. sensors (snd (sensor_array_update sa)) =
     (if retrigger then map sensor_triggered (map sensor_sampled (sensors sa))
      else map sensor_sampled (sensors sa))"
proof -
  let ?sa1 = "foldl update_sensor sa [0..<SENSOR_COUNT]"
  let ?sa2 = "?sa1\<lparr>sa_regs := reg_clear_bits (sa_regs ?sa1) REG_SENSOR_CTRL SENSOR_CTRL_TRIGGER\<rparr>"
  have s2: "sensors ?sa2 = map sensor_sampled (sensors sa)"
    by (simp add: update_loop_map [OF assms])
  then have len2: "length (sensors ?sa2) = SENSOR_COUNT"
    using assms by simp
  have "sensors (snd (sensor_array_update sa)) =
      (if continuous_mode ?sa2 \<and> sensor_is_ready ?sa2 then sensors (snd (sensor_array_trigger ?sa2))
       else sensors ?sa2)"
    by (simp add: sensor_array_update_def Let_def)
  then show ?thesis
    unfolding sensors_sensor_array_trigger [OF len2] s2
    by (metis (full_types))
qed

lemma sn_value_sensor_triggered [simp]:
  "sn_value (sensor_triggered s) = sn_value s"
  "min_value (sensor_triggered s) = min_value s"
  "max_value (sensor_triggered s) = max_value s"
  by (simp_all add: sensor_triggered_def)

lemma sn_value_sensor_sampled:
  "sn_value (sensor_sampled s) =
     (if sn_state s = SENSOR_STATE_SAMPLING then
        (if sint (sn_value s) < sint (min_value s)
         then (if sint (min_value s) > sint (max_value s) then max_value s else min_value s)
         else if sint (sn_value s) > sint (max_value s) then max_value s
         else sn_value s)
      else sn_value s)"
  "min_value (sensor_sampled s) = min_value s"
  "max_value (sensor_sampled s) = max_value s"
  by (simp_all add: sensor_sampled_def Let_def)

lemma sensor_read_nth:
  assumes "unat sensor_id < SENSOR_COUNT"
  shows "sensor_read sa sensor_id = sn_value (sensors sa ! unat sensor_id)"
    and "sensor_get_state sa sensor_id = sn_state (sensors sa ! unat sensor_id)"
  using assms by (simp_all add: sensor_read_def sensor_get_state_def)

lemma sensors_set_state:
  assumes "length xs = SENSOR_COUNT"
  shows "foldl (set_sensor_state st) xs [0..<SENSOR_COUNT] = map (\<lambda>s. s\<lparr>sn_state := st\<rparr>) xs"
proof -
  from assms obtain a b c d where "xs = [a, b, c, d]"
    by (rule four_sensors)
  then show ?thesis
    by (simp add: sensor_indices set_sensor_state_def)
qed

lemmas sensor_regs_simps =
  reg_read_reg_write reg_read_reg_set_bits reg_read_reg_clear_bits rf_wf_intros
  REGISTER_FILE_SIZE_def REG_SENSOR_CTRL_def REG_SENSOR_DATA_def REG_SENSOR_STATUS_def

lemma enabled_after_enable:
  assumes "rf_wf rf"
  shows "reg_read (sa_regs (snd (sensor_array_enable (snd (sensor_array_init rf))))) REG_SENSOR_CTRL AND SENSOR_CTRL_ENABLE \<noteq> 0"
  using assms
  by (simp add: sensor_array_enable_def sensor_array_init_def Let_def sensor_regs_simps SENSOR_CTRL_ENABLE_def)

lemma sensors_after_enable:
  "sensors (snd (sensor_array_enable (snd (sensor_array_init rf)))) =
     [(sensor_config SENSOR_TYPE_POSITION (- 10000) 10000)\<lparr>sn_state := SENSOR_STATE_IDLE\<rparr>,
      (sensor_config SENSOR_TYPE_VELOCITY 0 10000)\<lparr>sn_state := SENSOR_STATE_IDLE\<rparr>,
      (sensor_config SENSOR_TYPE_TEMPERATURE (- 40) 125)\<lparr>sn_state := SENSOR_STATE_IDLE\<rparr>,
      (sensor_config SENSOR_TYPE_CURRENT 0 5000)\<lparr>sn_state := SENSOR_STATE_IDLE\<rparr>]"
  by (simp add: sensor_array_enable_def sensor_array_init_def Let_def sensor_indices set_sensor_state_def)

lemma sensor_clamping_scenario:
  assumes "rf_wf rf"
  shows "sensor_read (sensor_set_simulated_value
            (snd (sensor_array_enable (snd (sensor_array_init rf)))) 2 9999) 2 = 9999"
   and "fst (sensor_array_trigger (sensor_set_simulated_value
            (snd (sensor_array_enable (snd (sensor_array_init rf)))) 2 9999)) = 0"
   and "sensor_read (snd (sensor_array_trigger (sensor_set_simulated_value
            (snd (sensor_array_enable (snd (sensor_array_init rf)))) 2 9999))) 2 = 9999"
   and "sensor_read (snd (sensor_array_update (snd (sensor_array_trigger
          (sensor_set_simulated_value
            (snd (sensor_array_enable (snd (sensor_array_init rf)))) 2 9999))))) 2 = 125"
proof -
  let ?sa1 = "snd (sensor_array_enable (snd (sensor_array_init rf)))"
  let ?sa2 = "sensor_set_simulated_value ?sa1 2 9999"
  note en = enabled_after_enable [OF assms]
  note ss = sensors_after_enable [of rf]
  have regs2: "sa_regs ?sa2 = sa_regs ?sa1"
    by (simp add: sensor_set_simulated_value_def)
  have cm2: "continuous_mode ?sa2 = False"
    by (simp add: sensor_set_simulated_value_def sensor_array_enable_def sensor_array_init_def Let_def)
  have ss2: "sensors ?sa2 = 
     [(sensor_config SENSOR_TYPE_POSITION (- 10000) 10000)\<lparr>sn_state := SENSOR_STATE_IDLE\<rparr>,
      (sensor_config SENSOR_TYPE_VELOCITY 0 10000)\<lparr>sn_state := SENSOR_STATE_IDLE\<rparr>,
      (sensor_config SENSOR_TYPE_TEMPERATURE (- 40) 125)\<lparr>sn_state := SENSOR_STATE_IDLE, sn_value := 9999\<rparr>,
      (sensor_config SENSOR_TYPE_CURRENT 0 5000)\<lparr>sn_state := SENSOR_STATE_IDLE\<rparr>]"
    by (simp add: sensor_set_simulated_value_def ss SENSOR_COUNT_def)
  show "sensor_read ?sa2 2 = 9999"
    by (simp add: sensor_read_def ss2 SENSOR_COUNT_def)
  have tr: "sensor_array_trigger ?sa2 =
      (0, ?sa2\<lparr>sa_regs := reg_set_bits (sa_regs ?sa2) REG_SENSOR_CTRL SENSOR_CTRL_TRIGGER,
                sensors := foldl trigger_sensor (sensors ?sa2) [0..<SENSOR_COUNT]\<rparr>)"
    using en by (simp add: sensor_array_trigger_def regs2 Let_def)
  show "fst (sensor_array_trigger ?sa2) = 0"
    by (simp add: tr)
  let ?sa3 = "snd (sensor_array_trigger ?sa2)"
  have ss3: "sensors ?sa3 = 
     [(sensor_config SENSOR_TYPE_POSITION (- 10000) 10000)\<lparr>sn_state := SENSOR_STATE_SAMPLING, sample_count := 1\<rparr>,
      (sensor_config SENSOR_TYPE_VELOCITY 0 10000)\<lparr>sn_state := SENSOR_STATE_SAMPLING, sample_count := 1\<rparr>,
      (sensor_config SENSOR_TYPE_TEMPERATURE (- 40) 125)\<lparr>sn_state := SENSOR_STATE_SAMPLING, sn_value := 9999, sample_count := 1\<rparr>,
      (sensor_config SENSOR_TYPE_CURRENT 0 5000)\<lparr>sn_state := SENSOR_STATE_SAMPLING, sample_count := 1\<rparr>]"
    by (simp add: tr ss2 sensor_indices trigger_sensor_def sensor_config_def)
  show "sensor_read ?sa3 2 = 9999"
    unfolding sensor_read_def ss3 by (simp add: SENSOR_COUNT_def)
  have cm3: "continuous_mode ?sa3 = False"
    by (simp add: tr cm2)
  have upd: "sensors (foldl update_sensor ?sa3 [0..<SENSOR_COUNT]) ! 2 =
      (sensor_config SENSOR_TYPE_TEMPERATURE (- 40) 125)\<lparr>sn_state := SENSOR_STATE_IDLE, sn_value := 125, sample_count := 1\<rparr>"
    and cm4: "continuous_mode (foldl update_sensor ?sa3 [0..<SENSOR_COUNT]) = False"
    by (simp_all add: sensor_indices update_sensor_def ss3 cm3 Let_def sensor_config_def)
  have u: "sensors (snd (sensor_array_update ?sa3))
      = sensors (foldl update_sensor ?sa3 [0..<SENSOR_COUNT])"
    by (simp add: sensor_array_update_def Let_def cm4)
  have id: "\<not> unat (2 :: u8) \<ge> SENSOR_COUNT"
    by (simp add: SENSOR_COUNT_def)
  show "sensor_read (snd (sensor_array_update ?sa3)) 2 = 125"
    unfolding sensor_read_def u using id by (simp add: upd)
qed

section \<open>Sensor array: claims\<close>

text \<open>
  Claim C7. Starting from an empty ring (head equal to tail) of capacity 16, fifteen
  consecutive calls of \<open>sensor_buffer_push\<close> return 0; the sixteenth returns the
  buffer-full code \<open>-2\<close>, sets the OVERFLOW bit of SENSOR_STATUS and leaves the ring's
  contents, head and tail as they were.
\<close>

theorem sensor_buffer_full_after_15:
  assumes wf: "sa_wf sa" and empty: "buffer_head sa = buffer_tail sa"
    and len: "length vs = 15"
  shows "fst (push_all sa vs) = replicate 15 0
    \<and> fst (sensor_buffer_push (snd (push_all sa vs)) v) = - 2
    \<and> reg_read (sa_regs (snd (sensor_buffer_push (snd (push_all sa vs)) v))) REG_SENSOR_STATUS
         AND SENSOR_STATUS_OVERFLOW \<noteq> 0
    \<and> buffer (snd (sensor_buffer_push (snd (push_all sa vs)) v)) = buffer (snd (push_all sa vs))
    \<and> buffer_head (snd (sensor_buffer_push (snd (push_all sa vs)) v))
         = buffer_head (snd (push_all sa vs))
    \<and> buffer_tail (snd (sensor_buffer_push (snd (push_all sa vs)) v))
         = buffer_tail (snd (push_all sa vs))"
proof -
  let ?sa1 = "snd (push_all sa vs)"
  have t: "unat (buffer_tail sa) < SENSOR_BUFFER_SIZE"
    using wf by (simp add: sa_wf_def)
  have hd0: "unat (buffer_head sa) = (unat (buffer_tail sa) + 0) mod SENSOR_BUFFER_SIZE"
    using t by (simp add: empty)
  have "0 + length vs < SENSOR_BUFFER_SIZE"
    by (simp add: len SENSOR_BUFFER_SIZE_def)
  note a = push_all_room [OF wf hd0 this]
  from a have rs: "fst (push_all sa vs) = replicate 15 0"
    by (simp add: len)
  from a have wf1: "sa_wf ?sa1" by simp
  from a have hd1: "unat (buffer_head ?sa1) = (unat (buffer_tail ?sa1) + 15) mod SENSOR_BUFFER_SIZE"
    by (simp add: len)
  have full: "15 + 1 = SENSOR_BUFFER_SIZE"
    by (simp add: SENSOR_BUFFER_SIZE_def)
  note p = push_when_full [OF wf1 hd1 full, of v]
  have rwf: "rf_wf (sa_regs ?sa1)"
    using wf1 by (simp add: sa_wf_def)
  have ov: "reg_read (reg_set_bits (sa_regs ?sa1) REG_SENSOR_STATUS SENSOR_STATUS_OVERFLOW)
      REG_SENSOR_STATUS AND SENSOR_STATUS_OVERFLOW \<noteq> 0"
    using rwf
    by (simp add: reg_read_reg_set_bits REGISTER_FILE_SIZE_def REG_SENSOR_STATUS_def
        or_and_same SENSOR_STATUS_OVERFLOW_def)
  show ?thesis
    using rs ov by (simp add: p)
qed

theorem sensor_buffer_full_after_15_witness:
  "sa_wf (snd (sensor_array_init (reg_init [])))
   \<and> buffer_head (snd (sensor_array_init (reg_init [])))
       = buffer_tail (snd (sensor_array_init (reg_init [])))
   \<and> length [1, 2, 3, 4, 5, 6, 7, 8, 9, 10, 11, 12, 13, 14, 15 :: s32] = 15
   \<and> fst (push_all (snd (sensor_array_init (reg_init [])))
          [1, 2, 3, 4, 5, 6, 7, 8, 9, 10, 11, 12, 13, 14, 15]) = replicate 15 0
   \<and> fst (sensor_buffer_push (snd (push_all (snd (sensor_array_init (reg_init [])))
          [1, 2, 3, 4, 5, 6, 7, 8, 9, 10, 11, 12, 13, 14, 15])) 99) = - 2"
proof -
  have wf: "sa_wf (snd (sensor_array_init (reg_init [])))"
    by code_simp
  have empty: "buffer_head (snd (sensor_array_init (reg_init [])))
      = buffer_tail (snd (sensor_array_init (reg_init [])))"
    by code_simp
  have len: "length [1, 2, 3, 4, 5, 6, 7, 8, 9, 10, 11, 12, 13, 14, 15 :: s32] = 15"
    by simp
  note th = sensor_buffer_full_after_15 [OF wf empty len, of 99]
  from wf empty len th [THEN conjunct1] th [THEN conjunct2, THEN conjunct1]
  show ?thesis
    by (intro conjI)
qed

text \<open>
  Claim C8. Clamping to a channel's range is done by \<open>sensor_array_update\<close> and by
  nothing else. For every array and every channel: \<open>sensor_set_simulated_value\<close> stores
  the value as given, so a read right after it returns the value unclamped;
  \<open>sensor_array_enable\<close>, \<open>sensor_array_disable\<close> and \<open>sensor_array_trigger\<close> leave
  the value as it is; \<open>sensor_array_update\<close> replaces the value of a channel that is
  sampling by the value clamped to the channel's \<open>[min, max]\<close> (first raised to the
  minimum, then lowered to the maximum, as signed numbers), which lies in the range
  whenever the range is not empty, leaves the value of any other channel alone, and
  leaves the range as it is. In the scenario of the specification, for every initial
  register file: after initialisation and enabling, setting channel 2 to 9999 makes
  \<open>sensor_read(2)\<close> return 9999; one trigger, which succeeds and leaves 9999 in place,
  followed by one update makes it return 125, the maximum of the temperature channel.
\<close>

theorem sensor_clamping_in_update_only:
  assumes len: "length (sensors sa) = SENSOR_COUNT" and id: "unat sensor_id < SENSOR_COUNT"
  shows "sensor_read (sensor_set_simulated_value sa sensor_id v) sensor_id = v
    \<and> sensor_read (snd (sensor_array_enable sa)) sensor_id = sensor_read sa sensor_id
    \<and> sensor_read (snd (sensor_array_disable sa)) sensor_id = sensor_read sa sensor_id
    \<and> sensor_read (snd (sensor_array_trigger sa)) sensor_id = sensor_read sa sensor_id
    \<and> sensor_read (snd (sensor_array_update sa)) sensor_id =
        (if sensor_get_state sa sensor_id = SENSOR_STATE_SAMPLING then
           (if sint (sensor_read sa sensor_id) < sint (min_value (sensors sa ! unat sensor_id))
            then (if sint (min_value (sensors sa ! unat sensor_id))
                      > sint (max_value (sensors sa ! unat sensor_id))
                  then max_value (sensors sa ! unat sensor_id)
                  else min_value (sensors sa ! unat sensor_id))
            else if sint (sensor_read sa sensor_id) > sint (max_value (sensors sa ! unat sensor_id))
            then max_value (sensors sa ! unat sensor_id)
            else sensor_read sa sensor_id)
         else sensor_read sa sensor_id)
    \<and> min_value (sensors (snd (sensor_array_update sa)) ! unat sensor_id)
        = min_value (sensors sa ! unat sensor_id)
    \<and> max_value (sensors (snd (sensor_array_update sa)) ! unat sensor_id)
        = max_value (sensors sa ! unat sensor_id)
    \<and> (sensor_get_state sa sensor_id = SENSOR_STATE_SAMPLING
         \<and> sint (min_value (sensors sa ! unat sensor_id))
             \<le> sint (max_value (sensors sa ! unat sensor_id)) \<longrightarrow>
           sint (min_value (sensors sa ! unat sensor_id))
             \<le> sint (sensor_read (snd (sensor_array_update sa)) sensor_id)
           \<and> sint (sensor_read (snd (sensor_array_update sa)) sensor_id)
             \<le> sint (max_value (sensors sa ! unat sensor_id)))
    \<and> (\<forall>rf. rf_wf rf \<longrightarrow>
          sensor_read (sensor_set_simulated_value
            (snd (sensor_array_enable (snd (sensor_array_init rf)))) 2 9999) 2 = 9999
          \<and> fst (sensor_array_trigger (sensor_set_simulated_value
            (snd (sensor_array_enable (snd (sensor_array_init rf)))) 2 9999)) = 0
          \<and> sensor_read (snd (sensor_array_trigger (sensor_set_simulated_value
            (snd (sensor_array_enable (snd (sensor_array_init rf)))) 2 9999))) 2 = 9999
          \<and> sensor_read (snd (sensor_array_update (snd (sensor_array_trigger
            (sensor_set_simulated_value
              (snd (sensor_array_enable (snd (sensor_array_init rf)))) 2 9999))))) 2 = 125)"
proof -
  have i: "unat sensor_id < length (sensors sa)"
    using len id by simp
  note rd = sensor_read_nth [OF id]
  have set: "sensor_read (sensor_set_simulated_value sa sensor_id v) sensor_id = v"
    using i id by (simp add: sensor_read_def sensor_set_simulated_value_def)
  have en: "sensor_read (snd (sensor_array_enable sa)) sensor_id = sensor_read sa sensor_id"
    using i by (simp add: rd sensor_array_enable_def Let_def sensors_set_state [OF len])
  have dis: "sensor_read (snd (sensor_array_disable sa)) sensor_id = sensor_read sa sensor_id"
    using i by (simp add: rd sensor_array_disable_def Let_def sensors_set_state [OF len])
  have tr: "sensor_read (snd (sensor_array_trigger sa)) sensor_id = sensor_read sa sensor_id"
    using i by (simp add: rd sensors_sensor_array_trigger [OF len])
  from sensors_sensor_array_update [OF len] obtain retrigger where
    up: "sensors (snd (sensor_array_update sa)) =
     (if retrigger then map sensor_triggered (map sensor_sampled (sensors sa))
      else map sensor_sampled (sensors sa))"
    by blast
  have ch: "sn_value (sensors (snd (sensor_array_update sa)) ! unat sensor_id)
        = sn_value (sensor_sampled (sensors sa ! unat sensor_id))"
    "min_value (sensors (snd (sensor_array_update sa)) ! unat sensor_id)
        = min_value (sensors sa ! unat sensor_id)"
    "max_value (sensors (snd (sensor_array_update sa)) ! unat sensor_id)
        = max_value (sensors sa ! unat sensor_id)"
    using i by (simp_all add: up sn_value_sensor_sampled)
  have upd: "sensor_read (snd (sensor_array_update sa)) sensor_id =
        (if sensor_get_state sa sensor_id = SENSOR_STATE_SAMPLING then
           (if sint (sensor_read sa sensor_id) < sint (min_value (sensors sa ! unat sensor_id))
            then (if sint (min_value (sensors sa ! unat sensor_id))
                      > sint (max_value (sensors sa ! unat sensor_id))
                  then max_value (sensors sa ! unat sensor_id)
                  else min_value (sensors sa ! unat sensor_id))
            else if sint (sensor_read sa sensor_id) > sint (max_value (sensors sa ! unat sensor_id))
            then max_value (sensors sa ! unat sensor_id)
            else sensor_read sa sensor_id)
         else sensor_read sa sensor_id)"
    unfolding rd ch(1) by (rule sn_value_sensor_sampled(1))
  have range: "sensor_get_state sa sensor_id = SENSOR_STATE_SAMPLING
         \<and> sint (min_value (sensors sa ! unat sensor_id))
             \<le> sint (max_value (sensors sa ! unat sensor_id)) \<longrightarrow>
           sint (min_value (sensors sa ! unat sensor_id))
             \<le> sint (sensor_read (snd (sensor_array_update sa)) sensor_id)
           \<and> sint (sensor_read (snd (sensor_array_update sa)) sensor_id)
             \<le> sint (max_value (sensors sa ! unat sensor_id))"
    unfolding upd by auto
  have scen: "\<forall>rf. rf_wf rf \<longrightarrow>
          sensor_read (sensor_set_simulated_value
            (snd (sensor_array_enable (snd (sensor_array_init rf)))) 2 9999) 2 = 9999
          \<and> fst (sensor_array_trigger (sensor_set_simulated_value
            (snd (sensor_array_enable (snd (sensor_array_init rf)))) 2 9999)) = 0
          \<and> sensor_read (snd (sensor_array_trigger (sensor_set_simulated_value
            (snd (sensor_array_enable (snd (sensor_array_init rf)))) 2 9999))) 2 = 9999
          \<and> sensor_read (snd (sensor_array_update (snd (sensor_array_trigger
            (sensor_set_simulated_value
              (snd (sensor_array_enable (snd (sensor_array_init rf)))) 2 9999))))) 2 = 125"
    using sensor_clamping_scenario by blast
  from set en dis tr upd ch(2,3) range scen show ?thesis
    by (intro conjI)
qed

text \<open>An instance below the range: the velocity channel, range \<open>[0, 10000]\<close>, set to
  \<open>-1\<close> and triggered, reads 0 after the update.\<close>

theorem sensor_clamping_in_update_only_witness:
  "length (sensors (snd (sensor_array_trigger (sensor_set_simulated_value
      (snd (sensor_array_enable (snd (sensor_array_init (reg_init []))))) 1 (- 1)))))
     = SENSOR_COUNT
   \<and> unat (1 :: u8) < SENSOR_COUNT
   \<and> sensor_get_state (snd (sensor_array_trigger (sensor_set_simulated_value
        (snd (sensor_array_enable (snd (sensor_array_init (reg_init []))))) 1 (- 1)))) 1
       = SENSOR_STATE_SAMPLING
   \<and> sensor_read (snd (sensor_array_trigger (sensor_set_simulated_value
        (snd (sensor_array_enable (snd (sensor_array_init (reg_init []))))) 1 (- 1)))) 1 = - 1
   \<and> sensor_read (snd (sensor_array_update (snd (sensor_array_trigger
        (sensor_set_simulated_value
          (snd (sensor_array_enable (snd (sensor_array_init (reg_init []))))) 1 (- 1))))))
        1 = 0
   \<and> rf_wf (reg_init [])
   \<and> sensor_read (snd (sensor_array_update (snd (sensor_array_trigger
        (sensor_set_simulated_value
          (snd (sensor_array_enable (snd (sensor_array_init (reg_init []))))) 2 9999)))))
        2 = 125"
proof -
  let ?sa = "snd (sensor_array_trigger (sensor_set_simulated_value
      (snd (sensor_array_enable (snd (sensor_array_init (reg_init []))))) 1 (- 1)))"
  have len: "length (sensors ?sa) = SENSOR_COUNT"
    by code_simp
  have id: "unat (1 :: u8) < SENSOR_COUNT"
    by (simp add: SENSOR_COUNT_def)
  have st: "sensor_get_state ?sa 1 = SENSOR_STATE_SAMPLING"
    by code_simp
  have v: "sensor_read ?sa 1 = - 1"
    by code_simp
  have lo: "min_value (sensors ?sa ! unat (1 :: u8)) = 0"
    by code_simp
  have hi: "max_value (sensors ?sa ! unat (1 :: u8)) = 10000"
    by code_simp
  have wf: "rf_wf (reg_init [])"
    by (rule rf_wf_reg_init)
  note th = sensor_clamping_in_update_only [OF len id, of 0]
  note upd = th [THEN conjunct2, THEN conjunct2, THEN conjunct2, THEN conjunct2,
      THEN conjunct1, unfolded st v lo hi]
  have clamped: "sensor_read (snd (sensor_array_update ?sa)) 1 = 0"
    using upd by simp
  note scen = th [THEN conjunct2, THEN conjunct2, THEN conjunct2, THEN conjunct2,
      THEN conjunct2, THEN conjunct2, THEN conjunct2, THEN conjunct2, rule_format, OF wf]
  note last = scen [THEN conjunct2, THEN conjunct2, THEN conjunct2]
  from len id st v clamped wf last show ?thesis
    by (intro conjI)
qed

section \<open>Interrupt controller: the dispatch loop\<close>

lemma ic_wf_irq_trigger: "ic_wf ic \<Longrightarrow> ic_wf (irq_trigger ic source)"
  by (simp add: ic_wf_def irq_trigger_def rf_wf_intros)

lemma ic_wf_irq_latch: "ic_wf ic \<Longrightarrow> ic_wf (irq_latch ic)"
  using ic_wf_irq_trigger [of "ic\<lparr>signal_received := 0\<rparr>" INT_TIMER]
  by (simp add: irq_latch_def ic_wf_def)

lemma irq_dispatch_simps:
  "irq_dispatch call (processed, calls, ic, w) i =
     (if irq_due ic i
      then (processed + 1, calls @ [(handlers ic ! i, i, handler_contexts ic ! i)],
            fst (call (handlers ic ! i) i (handler_contexts ic ! i) (ic, w)),
            snd (call (handlers ic ! i) i (handler_contexts ic ! i) (ic, w)))
      else (processed, calls, ic, w))"
  by (simp add: irq_dispatch_def irq_due_def split_beta)

lemma irq_loop_invariant:
  assumes pres: "handlers_keep_wf call" and wf: "ic_wf ic0"
    and res: "foldl (irq_dispatch call) (0, [], ic0, w0) [0..<b] = (processed, calls, ic, w)"
  shows "ic_wf ic \<and> processed = int (length calls)
       \<and> sorted_wrt (<) (map (\<lambda>c. fst (snd c)) calls)
       \<and> (\<forall>c \<in> set calls. fst (snd c) < b)"
  using res
proof (induction b arbitrary: processed calls ic w)
  case 0
  then show ?case using wf by simp
next
  case (Suc b)
  obtain p1 c1 ic1 w1 where
    prev: "foldl (irq_dispatch call) (0, [], ic0, w0) [0..<b] = (p1, c1, ic1, w1)"
    by (cases "foldl (irq_dispatch call) (0, [], ic0, w0) [0..<b]") auto
  note ih = Suc.IH [OF prev]
  from Suc.prems have step: "irq_dispatch call (p1, c1, ic1, w1) b = (processed, calls, ic, w)"
    by (simp add: prev)
  show ?case
  proof (cases "irq_due ic1 b")
    case True
    with step have eqs: "processed = p1 + 1"
      "calls = c1 @ [(handlers ic1 ! b, b, handler_contexts ic1 ! b)]"
      "ic = fst (call (handlers ic1 ! b) b (handler_contexts ic1 ! b) (ic1, w1))"
      by (simp_all add: irq_dispatch_simps)
    have "ic_wf ic"
      using pres ih unfolding eqs handlers_keep_wf_def by blast
    moreover have "sorted_wrt (<) (map (\<lambda>c. fst (snd c)) calls)"
      using ih by (auto simp: eqs sorted_wrt_append)
    moreover have "\<forall>c \<in> set calls. fst (snd c) < Suc b"
      using ih by (auto simp: eqs less_Suc_eq)
    ultimately show ?thesis
      using ih by (simp add: eqs)
  next
    case False
    with step have "processed = p1" "calls = c1" "ic = ic1"
      by (simp_all add: irq_dispatch_simps)
    then show ?thesis
      using ih by (auto simp: less_Suc_eq)
  qed
qed

lemma irq_loop_frame:
  assumes fr: "handlers_keep_table call"
    and res: "foldl (irq_dispatch call) (0, [], ic0, w0) [0..<b] = (processed, calls, ic, w)"
  shows "pending_irqs ic = pending_irqs ic0 \<and> handlers ic = handlers ic0
       \<and> handler_contexts ic = handler_contexts ic0
       \<and> calls = map (\<lambda>i. (handlers ic0 ! i, i, handler_contexts ic0 ! i))
                    (filter (irq_due ic0) [0..<b])"
  using res
proof (induction b arbitrary: processed calls ic w)
  case 0
  then show ?case by simp
next
  case (Suc b)
  obtain p1 c1 ic1 w1 where
    prev: "foldl (irq_dispatch call) (0, [], ic0, w0) [0..<b] = (p1, c1, ic1, w1)"
    by (cases "foldl (irq_dispatch call) (0, [], ic0, w0) [0..<b]") auto
  note ih = Suc.IH [OF prev]
  from Suc.prems have step: "irq_dispatch call (p1, c1, ic1, w1) b = (processed, calls, ic, w)"
    by (simp add: prev)
  have due: "irq_due ic1 b = irq_due ic0 b"
    using ih by (simp add: irq_due_def)
  show ?case
  proof (cases "irq_due ic1 b")
    case True
    with step have eqs: 
      "calls = c1 @ [(handlers ic1 ! b, b, handler_contexts ic1 ! b)]"
      "ic = fst (call (handlers ic1 ! b) b (handler_contexts ic1 ! b) (ic1, w1))"
      by (simp_all add: irq_dispatch_simps)
    have "pending_irqs ic = pending_irqs ic1 \<and> handlers ic = handlers ic1
       \<and> handler_contexts ic = handler_contexts ic1"
      using fr unfolding eqs handlers_keep_table_def by blast
    then show ?thesis
      using ih True due by (simp add: eqs)
  next
    case False
    with step have "calls = c1" "ic = ic1"
      by (simp_all add: irq_dispatch_simps)
    then show ?thesis
      using ih False due by simp
  qed
qed

lemma irq_replay_snoc:
  "irq_replay call st (calls @ [(h, s, c)]) = call h s c (irq_replay call st calls)"
  by (simp add: irq_replay_def)

lemma irq_replay_Nil: "irq_replay call st [] = st"
  by (simp add: irq_replay_def)

lemma irq_loop_replay:
  assumes res: "foldl (irq_dispatch call) (0, [], ic0, w0) [0..<b] = (processed, calls, ic, w)"
  shows "irq_replay call (ic0, w0) calls = (ic, w)
       \<and> (\<forall>c \<in> set calls. fst (snd c) < b)
       \<and> (\<forall>i < b. filter (\<lambda>c. fst (snd c) = i) calls =
             (if irq_due (fst (irq_replay call (ic0, w0)
                                (filter (\<lambda>c. fst (snd c) < i) calls))) i
              then [(handlers (fst (irq_replay call (ic0, w0)
                                (filter (\<lambda>c. fst (snd c) < i) calls))) ! i, i,
                     handler_contexts (fst (irq_replay call (ic0, w0)
                                (filter (\<lambda>c. fst (snd c) < i) calls))) ! i)]
              else []))"
  using res
proof (induction b arbitrary: processed calls ic w)
  case 0
  then show ?case by (simp add: irq_replay_Nil)
next
  case (Suc b)
  obtain p1 c1 ic1 w1 where
    prev: "foldl (irq_dispatch call) (0, [], ic0, w0) [0..<b] = (p1, c1, ic1, w1)"
    by (cases "foldl (irq_dispatch call) (0, [], ic0, w0) [0..<b]") auto
  note ih = Suc.IH [OF prev]
  from ih have rp: "irq_replay call (ic0, w0) c1 = (ic1, w1)"
    and below: "\<forall>c \<in> set c1. fst (snd c) < b"
    by simp_all
  from below have all: "filter (\<lambda>c. fst (snd c) < b) c1 = c1"
    and none: "filter (\<lambda>c. fst (snd c) = b) c1 = []"
    by (auto simp: filter_empty_conv)
  from Suc.prems have step: "irq_dispatch call (p1, c1, ic1, w1) b = (processed, calls, ic, w)"
    by (simp add: prev)
  show ?case
  proof (cases "irq_due ic1 b")
    case True
    let ?e = "(handlers ic1 ! b, b, handler_contexts ic1 ! b)"
    from True step have eqs: "calls = c1 @ [?e]"
      "(ic, w) = call (handlers ic1 ! b) b (handler_contexts ic1 ! b) (ic1, w1)"
      by (simp_all add: irq_dispatch_simps)
    have "irq_replay call (ic0, w0) calls = (ic, w)"
      by (simp add: eqs(1) irq_replay_snoc rp eqs(2) [symmetric])
    moreover have "\<forall>c \<in> set calls. fst (snd c) < Suc b"
      using below by (auto simp: eqs(1) less_Suc_eq)
    moreover have "filter (\<lambda>c. fst (snd c) = i) calls =
             (if irq_due (fst (irq_replay call (ic0, w0)
                                (filter (\<lambda>c. fst (snd c) < i) calls))) i
              then [(handlers (fst (irq_replay call (ic0, w0)
                                (filter (\<lambda>c. fst (snd c) < i) calls))) ! i, i,
                     handler_contexts (fst (irq_replay call (ic0, w0)
                                (filter (\<lambda>c. fst (snd c) < i) calls))) ! i)]
              else [])" if "i < Suc b" for i
    proof (cases "i = b")
      case True
      then show ?thesis
        using \<open>irq_due ic1 b\<close> by (simp add: eqs(1) all none rp)
    next
      case False
      with that have "i < b" by simp
      then show ?thesis
        using ih by (simp add: eqs(1))
    qed
    ultimately show ?thesis by blast
  next
    case False
    from False step have eqs: "calls = c1" "ic = ic1" "w = w1"
      by (simp_all add: irq_dispatch_simps)
    have "filter (\<lambda>c. fst (snd c) = i) calls =
             (if irq_due (fst (irq_replay call (ic0, w0)
                                (filter (\<lambda>c. fst (snd c) < i) calls))) i
              then [(handlers (fst (irq_replay call (ic0, w0)
                                (filter (\<lambda>c. fst (snd c) < i) calls))) ! i, i,
                     handler_contexts (fst (irq_replay call (ic0, w0)
                                (filter (\<lambda>c. fst (snd c) < i) calls))) ! i)]
              else [])" if "i < Suc b" for i
    proof (cases "i = b")
      case True
      then show ?thesis
        using \<open>\<not> irq_due ic1 b\<close> by (simp add: eqs(1) all none rp)
    next
      case False
      with that have "i < b" by simp
      then show ?thesis
        using ih by (simp add: eqs(1))
    qed
    moreover have "\<forall>c \<in> set calls. fst (snd c) < Suc b"
      using below by (auto simp: eqs(1) less_Suc_eq)
    ultimately show ?thesis
      using rp by (simp add: eqs)
  qed
qed

lemma irq_trigger_disabled:
  assumes "enabled_irqs ic AND push_bit source 1 = 0"
  shows "irq_trigger ic source = ic"
  using assms by (simp add: irq_trigger_def)

lemma irq_trigger_pending:
  "pending_irqs (irq_trigger ic source) =
     (if source < INT_COUNT \<and> enabled_irqs ic AND push_bit source 1 \<noteq> 0
      then pending_irqs ic OR push_bit source 1 else pending_irqs ic)"
  by (simp add: irq_trigger_def)

section \<open>Interrupt controller: claims\<close>

text \<open>
  Claim C5 does not hold of the signal bridge. \<open>irq_trigger\<close> sets a pending bit only
  if the source is enabled (lemmas \<open>irq_trigger_disabled\<close>, \<open>irq_trigger_pending\<close>),
  but \<open>irq_signal_handler\<close> sets the pending bit of its source without looking at the
  enabled mask, and without mirroring it in IRQ_STATUS. Right after \<open>irq_init\<close>, when
  no source is enabled, SIGUSR1 makes the motor-fault source pending.
\<close>

theorem irq_signal_handler_sets_disabled_pending:
  "enabled_irqs (snd (irq_init (reg_init []) 0 0)) = 0
   \<and> \<not> irq_is_pending (snd (irq_init (reg_init []) 0 0)) INT_MOTOR_FAULT
   \<and> map_option enabled_irqs
         (irq_signal_handler (Some (snd (irq_init (reg_init []) 0 0))) SIGUSR1) = Some 0
   \<and> map_option (\<lambda>ic. irq_is_pending ic INT_MOTOR_FAULT)
         (irq_signal_handler (Some (snd (irq_init (reg_init []) 0 0))) SIGUSR1) = Some True
   \<and> map_option (\<lambda>ic. reg_read (ic_regs ic) REG_IRQ_STATUS)
         (irq_signal_handler (Some (snd (irq_init (reg_init []) 0 0))) SIGUSR1) = Some 0"
  by code_simp

text \<open>
  Claim C6. \<open>irq_process_pending\<close> first turns a set signal latch into
  \<open>irq_trigger\<close> of the timer source (\<open>irq_latch\<close>). It then goes through the
  sources in ascending order and, for each source that is pending and has a handler
  registered when the loop reaches it, calls that handler once, with the source and the
  context recorded for it, and calls nothing else: the state the program is left in is
  the one obtained by running the handler code on exactly these calls, in this order,
  with these arguments, followed by the clearing of the pending mask and of IRQ_STATUS,
  which both end at zero. The value returned is the number of calls made. Handlers may
  change the controller and the rest of the state at will; when they leave the pending
  mask and the handler tables alone, the sources served are those pending and
  registered right after the latch step.
\<close>

theorem irq_process_pending_dispatch:
  assumes wf: "ic_wf ic" and pres: "handlers_keep_wf call"
    and res: "irq_process_pending call ic w = (n, calls, ic', w')"
  shows "pending_irqs ic' = 0
    \<and> reg_read (ic_regs ic') REG_IRQ_STATUS = 0
    \<and> n = int (length calls)
    \<and> sorted_wrt (<) (map (\<lambda>c. fst (snd c)) calls)
    \<and> (\<forall>c \<in> set calls. fst (snd c) < INT_COUNT)
    \<and> (\<forall>i < INT_COUNT.
          filter (\<lambda>c. fst (snd c) = i) calls =
            (if irq_due (fst (irq_reached call ic w calls i)) i
             then [(handlers (fst (irq_reached call ic w calls i)) ! i, i,
                    handler_contexts (fst (irq_reached call ic w calls i)) ! i)]
             else []))
    \<and> ic' = (fst (irq_replay call (irq_latch ic, w) calls))
               \<lparr>pending_irqs := 0,
                ic_regs := reg_write (ic_regs (fst (irq_replay call (irq_latch ic, w) calls)))
                             REG_IRQ_STATUS 0\<rparr>
    \<and> w' = snd (irq_replay call (irq_latch ic, w) calls)
    \<and> (handlers_keep_table call \<longrightarrow>
          calls = map (\<lambda>i. (handlers (irq_latch ic) ! i, i, handler_contexts (irq_latch ic) ! i))
                    (filter (irq_due (irq_latch ic)) [0..<INT_COUNT]))
    \<and> (signal_received ic \<noteq> 0 \<longrightarrow>
          irq_latch ic = irq_trigger (ic\<lparr>signal_received := 0\<rparr>) INT_TIMER)
    \<and> (signal_received ic = 0 \<longrightarrow> irq_latch ic = ic)"
proof -
  obtain p2 c2 ic2 w2 where
    loop: "foldl (irq_dispatch call) (0, [], irq_latch ic, w) [0..<INT_COUNT] = (p2, c2, ic2, w2)"
    by (cases "foldl (irq_dispatch call) (0, [], irq_latch ic, w) [0..<INT_COUNT]") auto
  from res have eqs: "n = p2" "calls = c2" "w' = w2"
    "ic' = ic2\<lparr>pending_irqs := 0, ic_regs := reg_write (ic_regs ic2) REG_IRQ_STATUS 0\<rparr>"
    by (simp_all add: irq_process_pending_def Let_def loop)
  note inv = irq_loop_invariant [OF pres ic_wf_irq_latch [OF wf] loop]
  note rep = irq_loop_replay [OF loop]
  from rep have rp: "irq_replay call (irq_latch ic, w) c2 = (ic2, w2)"
    by simp
  from inv have rwf: "rf_wf (ic_regs ic2)"
    by (simp add: ic_wf_def)
  have pending: "pending_irqs ic' = 0"
    by (simp add: eqs)
  have status: "reg_read (ic_regs ic') REG_IRQ_STATUS = 0"
    using rwf by (simp add: eqs reg_read_reg_write REGISTER_FILE_SIZE_def REG_IRQ_STATUS_def)
  from inv have count: "n = int (length calls)"
    and ascending: "sorted_wrt (<) (map (\<lambda>c. fst (snd c)) calls)"
    and bound: "\<forall>c \<in> set calls. fst (snd c) < INT_COUNT"
    by (simp_all add: eqs)
  have each: "\<forall>i < INT_COUNT.
          filter (\<lambda>c. fst (snd c) = i) calls =
            (if irq_due (fst (irq_reached call ic w calls i)) i
             then [(handlers (fst (irq_reached call ic w calls i)) ! i, i,
                    handler_contexts (fst (irq_reached call ic w calls i)) ! i)]
             else [])"
    unfolding irq_reached_def eqs(2) using rep by blast
  have final: "ic' = (fst (irq_replay call (irq_latch ic, w) calls))
               \<lparr>pending_irqs := 0,
                ic_regs := reg_write (ic_regs (fst (irq_replay call (irq_latch ic, w) calls)))
                             REG_IRQ_STATUS 0\<rparr>"
    and rest: "w' = snd (irq_replay call (irq_latch ic, w) calls)"
    by (simp_all add: rp eqs)
  have frame: "handlers_keep_table call \<longrightarrow>
          calls = map (\<lambda>i. (handlers (irq_latch ic) ! i, i, handler_contexts (irq_latch ic) ! i))
                    (filter (irq_due (irq_latch ic)) [0..<INT_COUNT])"
    using irq_loop_frame [OF _ loop] by (simp add: eqs)
  have latch: "signal_received ic \<noteq> 0 \<longrightarrow>
          irq_latch ic = irq_trigger (ic\<lparr>signal_received := 0\<rparr>) INT_TIMER"
    and nolatch: "signal_received ic = 0 \<longrightarrow> irq_latch ic = ic"
    by (simp_all add: irq_latch_def)
  from pending status count ascending bound each final rest frame latch nolatch
  show ?thesis
    by (intro conjI)
qed

theorem irq_process_pending_dispatch_witness:
  "ic_wf \<lparr>ic_regs = [0, 0, 0, 0, 0, 0, 0, 5, 31], ic_motor = 0, ic_sensors = 0,
           handlers = [100, 0, 0, 0, 200], handler_contexts = [7, 0, 0, 0, 9],
           pending_irqs = 5, enabled_irqs = 31, signal_received = 1\<rparr>
   \<and> handlers_keep_wf irq_recorder
   \<and> irq_process_pending irq_recorder
        \<lparr>ic_regs = [0, 0, 0, 0, 0, 0, 0, 5, 31], ic_motor = 0, ic_sensors = 0,
           handlers = [100, 0, 0, 0, 200], handler_contexts = [7, 0, 0, 0, 9],
           pending_irqs = 5, enabled_irqs = 31, signal_received = 1\<rparr> []
       = (2, [(100, 0, 7), (200, 4, 9)],
          \<lparr>ic_regs = [0, 0, 0, 0, 0, 0, 0, 0, 31], ic_motor = 0, ic_sensors = 0,
           handlers = [100, 0, 0, 0, 200], handler_contexts = [7, 0, 0, 0, 9],
           pending_irqs = 0, enabled_irqs = 31, signal_received = 0\<rparr>,
          [(100, 0, 7), (200, 4, 9)])
   \<and> (2 :: int) = int (length [(100 :: nat, 0 :: nat, 7 :: nat), (200, 4, 9)])
   \<and> (4 :: nat) < INT_COUNT
   \<and> irq_due (fst (irq_reached irq_recorder
        \<lparr>ic_regs = [0, 0, 0, 0, 0, 0, 0, 5, 31], ic_motor = 0, ic_sensors = 0,
           handlers = [100, 0, 0, 0, 200], handler_contexts = [7, 0, 0, 0, 9],
           pending_irqs = 5, enabled_irqs = 31, signal_received = 1\<rparr> [] [(100, 0, 7), (200, 4, 9)] 4)) 4
   \<and> filter (\<lambda>c. fst (snd c) = 4) [(100 :: nat, 0 :: nat, 7 :: nat), (200, 4, 9)]
       = [(handlers (fst (irq_reached irq_recorder
            \<lparr>ic_regs = [0, 0, 0, 0, 0, 0, 0, 5, 31], ic_motor = 0, ic_sensors = 0,
           handlers = [100, 0, 0, 0, 200], handler_contexts = [7, 0, 0, 0, 9],
           pending_irqs = 5, enabled_irqs = 31, signal_received = 1\<rparr> [] [(100, 0, 7), (200, 4, 9)] 4)) ! 4, 4,
           handler_contexts (fst (irq_reached irq_recorder
            \<lparr>ic_regs = [0, 0, 0, 0, 0, 0, 0, 5, 31], ic_motor = 0, ic_sensors = 0,
           handlers = [100, 0, 0, 0, 200], handler_contexts = [7, 0, 0, 0, 9],
           pending_irqs = 5, enabled_irqs = 31, signal_received = 1\<rparr> [] [(100, 0, 7), (200, 4, 9)] 4)) ! 4)]
   \<and> [(100, 0, 7), (200, 4, 9)]
       = snd (irq_replay irq_recorder (irq_latch
            \<lparr>ic_regs = [0, 0, 0, 0, 0, 0, 0, 5, 31], ic_motor = 0, ic_sensors = 0,
           handlers = [100, 0, 0, 0, 200], handler_contexts = [7, 0, 0, 0, 9],
           pending_irqs = 5, enabled_irqs = 31, signal_received = 1\<rparr>, [])
          [(100, 0, 7), (200, 4, 9)])"
proof -
  let ?ic = "\<lparr>ic_regs = [0, 0, 0, 0, 0, 0, 0, 5, 31], ic_motor = 0, ic_sensors = 0,
           handlers = [100, 0, 0, 0, 200], handler_contexts = [7, 0, 0, 0, 9],
           pending_irqs = 5, enabled_irqs = 31, signal_received = 1\<rparr>"
  have wf: "ic_wf ?ic"
    by code_simp
  have pres: "handlers_keep_wf irq_recorder"
    by (simp add: handlers_keep_wf_def irq_recorder_def)
  have res: "irq_process_pending irq_recorder ?ic []
       = (2, [(100, 0, 7), (200, 4, 9)],
          \<lparr>ic_regs = [0, 0, 0, 0, 0, 0, 0, 0, 31], ic_motor = 0, ic_sensors = 0,
           handlers = [100, 0, 0, 0, 200], handler_contexts = [7, 0, 0, 0, 9],
           pending_irqs = 0, enabled_irqs = 31, signal_received = 0\<rparr>,
          [(100, 0, 7), (200, 4, 9)])"
    by code_simp
  have timer: "(4 :: nat) < INT_COUNT"
    by (simp add: INT_COUNT_def)
  have due: "irq_due (fst (irq_reached irq_recorder ?ic [] [(100, 0, 7), (200, 4, 9)] 4)) 4"
    by code_simp
  note th = irq_process_pending_dispatch [OF wf pres res]
  note cnt = th [THEN conjunct2, THEN conjunct2, THEN conjunct1]
  note each = th [THEN conjunct2, THEN conjunct2, THEN conjunct2, THEN conjunct2,
      THEN conjunct2, THEN conjunct1, rule_format, OF timer]
  have at_timer: "filter (\<lambda>c. fst (snd c) = 4) [(100 :: nat, 0 :: nat, 7 :: nat), (200, 4, 9)]
       = [(handlers (fst (irq_reached irq_recorder ?ic [] [(100, 0, 7), (200, 4, 9)] 4)) ! 4, 4,
           handler_contexts (fst (irq_reached irq_recorder ?ic [] [(100, 0, 7), (200, 4, 9)] 4))
             ! 4)]"
    using each due by (simp only: if_True)
  note received = th [THEN conjunct2, THEN conjunct2, THEN conjunct2, THEN conjunct2,
      THEN conjunct2, THEN conjunct2, THEN conjunct2, THEN conjunct1]
  from wf pres res cnt timer due at_timer received show ?thesis
    by (intro conjI)
qed

end
